theory Spec2Isabelle
  imports Main "HOL-Library.Sublist"
begin

section \<open>The document model\<close>

text \<open>
  The merger of \<^verbatim>\<open>yamlpath/merger.py\<close> works on documents as the YAML loader
  hands them over: Python scalars (\<^verbatim>\<open>str\<close>, \<^verbatim>\<open>int\<close>, \<^verbatim>\<open>bool\<close>,
  \<^verbatim>\<open>None\<close> and their anchored subclasses), lists and insertion-ordered dicts.
  Floating point scalars are left out of the model.

  A node carries two attachments the merger reads. The first is the anchor: the code tests
  \<^verbatim>\<open>hasattr(node, "anchor")\<close> and then reads \<^verbatim>\<open>node.anchor.value\<close>, which may
  be \<^verbatim>\<open>None\<close>; \<open>NoAttr\<close> is a node without the attribute, \<open>Anchor None\<close> one that
  has the attribute but no name, \<open>Anchor (Some n)\<close> one anchored as \<open>n\<close>. The second is
  the comment attachment that \<^verbatim>\<open>delete_all_comments\<close> removes.

  Documents are modelled as trees: an alias site holds the anchored node itself (the same
  term), and an in-place update of a container is returned to the position the container was
  reached through.
\<close>

datatype scalar = SStr string | SInt int | SBool bool | SNull

datatype anchor_attr = NoAttr | Anchor "string option"

datatype node =
    Scalar anchor_attr "string option" scalar
  | Sequence anchor_attr "string option" "node list"
  | Mapping anchor_attr "string option" "(node \<times> node) list"

type_synonym entries = "(node \<times> node) list"

fun anchor_of :: "node \<Rightarrow> anchor_attr" where
  "anchor_of (Scalar a c v) = a"
| "anchor_of (Sequence a c xs) = a"
| "anchor_of (Mapping a c d) = a"

fun isinstance_dict :: "node \<Rightarrow> bool" where
  "isinstance_dict (Mapping a c d) = True"
| "isinstance_dict _ = False"

fun isinstance_list :: "node \<Rightarrow> bool" where
  "isinstance_list (Sequence a c xs) = True"
| "isinstance_list _ = False"

text \<open>\<^verbatim>\<open>hasattr(n, "anchor") and n.anchor.value == a\<close>.\<close>

definition anchor_is :: "node \<Rightarrow> string option \<Rightarrow> bool" where
  "anchor_is n a = (anchor_of n = Anchor a)"

text \<open>\<^verbatim>\<open>hasattr(n, "anchor") and n.anchor.value is not None\<close>, giving the name.\<close>

definition anchor_name :: "node \<Rightarrow> string option" where
  "anchor_name n = (case anchor_of n of NoAttr \<Rightarrow> None | Anchor a \<Rightarrow> a)"

subsection \<open>Python's value equality\<close>

text \<open>
  \<^verbatim>\<open>==\<close> on scalars: \<^verbatim>\<open>True == 1\<close> and \<^verbatim>\<open>False == 0\<close> hold, a string never
  equals a number. Anchors and comments take no part in it. Lists are equal elementwise;
  dicts are equal when they have as many entries and every entry of the one has an equal key
  with an equal value in the other, whatever the order.
\<close>

fun scalar_eq :: "scalar \<Rightarrow> scalar \<Rightarrow> bool" where
  "scalar_eq (SStr a) (SStr b) = (a = b)"
| "scalar_eq (SInt a) (SInt b) = (a = b)"
| "scalar_eq (SBool a) (SBool b) = (a = b)"
| "scalar_eq (SBool a) (SInt b) = (b = (if a then 1 else 0))"
| "scalar_eq (SInt a) (SBool b) = (a = (if b then 1 else 0))"
| "scalar_eq SNull SNull = True"
| "scalar_eq _ _ = False"

fun py_eq :: "node \<Rightarrow> node \<Rightarrow> bool" where
  "py_eq (Scalar a c v) y =
     (case y of Scalar a' c' w \<Rightarrow> scalar_eq v w | _ \<Rightarrow> False)"
| "py_eq (Sequence a c xs) y =
     (case y of Sequence a' c' ys \<Rightarrow> list_all2 py_eq xs ys | _ \<Rightarrow> False)"
| "py_eq (Mapping a c d) y =
     (case y of
        Mapping a' c' e \<Rightarrow>
          length d = length e \<and>
          list_all (\<lambda>(k, v). list_ex (\<lambda>(k', v'). py_eq k k' \<and> py_eq v v') e) d
      | _ \<Rightarrow> False)"

subsection \<open>The ordered dict\<close>

text \<open>\<^verbatim>\<open>key in d\<close>, \<^verbatim>\<open>d[key]\<close> and \<^verbatim>\<open>d[key] = val\<close> of an insertion-ordered dict:
  assignment to a present key keeps the key object and its position.\<close>

definition dict_contains :: "entries \<Rightarrow> node \<Rightarrow> bool" where
  "dict_contains d key = list_ex (\<lambda>(k, v). py_eq k key) d"

fun dict_get :: "entries \<Rightarrow> node \<Rightarrow> node option" where
  "dict_get [] key = None"
| "dict_get ((k, v) # d) key = (if py_eq k key then Some v else dict_get d key)"

fun dict_set :: "entries \<Rightarrow> node \<Rightarrow> node \<Rightarrow> entries" where
  "dict_set [] key val = [(key, val)]"
| "dict_set ((k, v) # d) key val =
     (if py_eq k key then (k, val) # d else (k, v) # dict_set d key val)"

text \<open>
  \<^verbatim>\<open>d.insert(pos, key, value)\<close> as the YAML library's ordered dict does it: at or past
  the end it is a plain assignment; otherwise the dict is emptied and refilled, the new entry
  assigned just before the old entry at index \<open>pos\<close>.
\<close>

definition dict_insert :: "entries \<Rightarrow> nat \<Rightarrow> node \<Rightarrow> node \<Rightarrow> entries" where
  "dict_insert d pos key val =
     (if pos \<ge> length d then dict_set d key val
      else fold (\<lambda>(index, (old_key, old_val)) self.
                   dict_set (if pos = index then dict_set self key val else self)
                            old_key old_val)
                (enumerate 0 d) [])"

section \<open>The anchor scan\<close>

text \<open>
  \<^verbatim>\<open>scan_for_anchors(dom, anchors)\<close> fills the dict \<open>anchors\<close>; its keys are anchor
  names, or \<^verbatim>\<open>None\<close> from the last branch, which reads the name of any scalar that has
  the attribute. \<^verbatim>\<open>anchors[name] = node\<close> overwrites the node of a name already there and
  leaves the name at the place of its first insertion.
\<close>

type_synonym anchors = "(string option \<times> node) list"

fun anchors_set :: "anchors \<Rightarrow> string option \<Rightarrow> node \<Rightarrow> anchors" where
  "anchors_set [] name n = [(name, n)]"
| "anchors_set ((k, v) # rest) name n =
     (if k = name then (k, n) # rest else (k, v) # anchors_set rest name n)"

fun scan_for_anchors :: "node \<Rightarrow> anchors \<Rightarrow> anchors" where
  "scan_for_anchors (Mapping a c d) anchors =
     fold (\<lambda>(key, val) acc.
             let acc1 = (case anchor_of key of
                           Anchor (Some n) \<Rightarrow> anchors_set acc (Some n) key
                         | _ \<Rightarrow> acc);
                 acc2 = (case anchor_of val of
                           Anchor (Some n) \<Rightarrow> anchors_set acc1 (Some n) val
                         | _ \<Rightarrow> acc1)
             in if isinstance_dict val \<or> isinstance_list val
                then scan_for_anchors val acc2 else acc2)
          d anchors"
| "scan_for_anchors (Sequence a c xs) anchors =
     fold (\<lambda>ele acc. scan_for_anchors ele acc) xs anchors"
| "scan_for_anchors (Scalar a c v) anchors =
     (case a of
        Anchor name \<Rightarrow> anchors_set anchors name (Scalar a c v)
      | NoAttr \<Rightarrow> anchors)"

section \<open>Merge policies and failures\<close>

text \<open>
  Modelled from the spec: the enumerations of \<^verbatim>\<open>yamlpath.enums\<close> and the policy
  provider \<^verbatim>\<open>MergerConfig\<close> are not part of the sources. The enumerations have the
  members the spec's table lists, under the names the merger compares against
  (\<^verbatim>\<open>HashMergeOpts.LEFT\<close>, ...); \<open>AOH_OTHER\<close> is any array-of-hashes mode but the
  four named ones, and \<open>ACR_STOP\<close> the anchor mode that is none of the three named ones
  (the default). The policy provider is a record of the functions the merger calls; what
  they answer is a parameter of every definition below.
\<close>

datatype hash_merge_opts = HM_LEFT | HM_RIGHT | HM_DEEP

datatype array_merge_opts = AM_LEFT | AM_RIGHT | AM_UNIQUE | AM_ALL

datatype aoh_merge_opts = AOH_LEFT | AOH_RIGHT | AOH_UNIQUE | AOH_DEEP | AOH_OTHER

datatype anchor_conflict_resolutions = ACR_RENAME | ACR_LEFT | ACR_RIGHT | ACR_STOP

text \<open>\<^verbatim>\<open>NodeCoords(node, parent, parentref)\<close>: \<open>parentref\<close> is a dict key or a list
  index. A path is the list of the references walked from the root; the source keeps it as a
  string and only tests whether it is empty.\<close>

datatype parentref = KeyRef node | IndexRef nat

type_synonym node_coords = "node \<times> node option \<times> parentref option"

type_synonym path = "parentref list"

record merger_config =
  hash_merge_mode :: "node_coords \<Rightarrow> hash_merge_opts"
  array_merge_mode :: "node_coords \<Rightarrow> array_merge_opts"
  aoh_merge_mode :: "node_coords \<Rightarrow> aoh_merge_opts"
  aoh_merge_key :: "node_coords \<Rightarrow> node \<Rightarrow> node"
  anchor_merge_mode :: anchor_conflict_resolutions

text \<open>
  Modelled from the spec: \<^verbatim>\<open>ConsolePrinter.error(message, exit_code)\<close> is not part of
  the sources; the spec makes an error with a severity fatal, so it is the failure
  \<open>Fatal exit_code message\<close>. The other failures are the Python exceptions of an
  operation on a node of the wrong kind or on a missing key.
\<close>

datatype error = Fatal nat string | KeyError | TypeError | AttributeError

section \<open>The deep merge\<close>

subsection \<open>Operations on nodes of any kind\<close>

fun starts_with :: "string \<Rightarrow> string \<Rightarrow> bool" where
  "starts_with s [] = True"
| "starts_with [] (c # t) = False"
| "starts_with (c # s) (c' # t) = (c = c' \<and> starts_with s t)"

fun is_substring :: "string \<Rightarrow> string \<Rightarrow> bool" where
  "is_substring t [] = (t = [])"
| "is_substring t (c # s) = (starts_with (c # s) t \<or> is_substring t s)"

text \<open>\<^verbatim>\<open>x in container\<close>: the keys of a dict, the elements of a list, the substrings
  of a string.\<close>

fun py_contains :: "node \<Rightarrow> node \<Rightarrow> error + bool" where
  "py_contains (Mapping a c d) x = Inr (dict_contains d x)"
| "py_contains (Sequence a c xs) x = Inr (list_ex (\<lambda>e. py_eq e x) xs)"
| "py_contains (Scalar a c (SStr s)) (Scalar a' c' (SStr t)) = Inr (is_substring t s)"
| "py_contains (Scalar a c v) x = Inl TypeError"

text \<open>\<^verbatim>\<open>container[key]\<close> for a dict key; subscripting a list or a scalar with it is
  modelled as a type error.\<close>

fun py_getitem :: "node \<Rightarrow> node \<Rightarrow> error + node" where
  "py_getitem (Mapping a c d) key =
     (case dict_get d key of None \<Rightarrow> Inl KeyError | Some v \<Rightarrow> Inr v)"
| "py_getitem _ key = Inl TypeError"

text \<open>
  Modelled from the spec: \<^verbatim>\<open>append_list_element(data, value, anchor)\<close> of
  \<^verbatim>\<open>yamlpath.func\<close> is not part of the sources. The merger passes the element with the
  anchor name the element already carries, and the spec has appended elements retain their
  own anchor: the element is appended as it is.
\<close>

definition append_list_element :: "node list \<Rightarrow> node \<Rightarrow> string option \<Rightarrow> node list" where
  "append_list_element data val anchor = data @ [val]"

subsection \<open>Lists of scalars or lists\<close>

text \<open>
  \<^verbatim>\<open>_merge_simple_lists\<close>. The loop appends to \<open>lhs\<close> while it tests membership in
  it. A left-hand side that is not a list is not guarded in the source; the model fails
  there as soon as the loop has an element to place.
\<close>

definition merge_simple_lists ::
  "merger_config \<Rightarrow> node \<Rightarrow> node \<Rightarrow> node_coords \<Rightarrow> path \<Rightarrow> error + node" where
  "merge_simple_lists cfg lhs rhs node_coord p =
     (let merge_mode = array_merge_mode cfg node_coord in
      if merge_mode = AM_LEFT then Inr lhs
      else if merge_mode = AM_RIGHT then Inr rhs
      else
        (let append_all = (merge_mode = AM_ALL) in
         case rhs of
           Sequence ra rc relems \<Rightarrow>
             (case lhs of
                Sequence la lc lelems \<Rightarrow>
                  Inr (Sequence la lc
                         (fold (\<lambda>ele l.
                                  if append_all \<or> \<not> list_ex (\<lambda>x. py_eq x ele) l
                                  then append_list_element l ele (anchor_name ele)
                                  else l)
                               relems lelems))
              | _ \<Rightarrow> if relems = [] then Inr lhs else Inl TypeError)
         | _ \<Rightarrow> Inl TypeError))"

subsection \<open>Dicts, lists and arrays of hashes\<close>

text \<open>
  The first element of \<open>lhs\<close>, from index \<open>i\<close> on, that has the identity key with a
  value equal to \<open>rhs_key_value\<close>: the test
  \<^verbatim>\<open>id_key in lhs_hash and lhs_hash[id_key] == rhs_key_value\<close> of the inner loop of
  \<^verbatim>\<open>_merge_arrays_of_hashes\<close>, which stops at the first hit.
\<close>

fun aoh_find :: "node list \<Rightarrow> node \<Rightarrow> node \<Rightarrow> nat \<Rightarrow> error + nat option" where
  "aoh_find [] id_key rhs_key_value i = Inr None"
| "aoh_find (lhs_hash # rest) id_key rhs_key_value i =
     (case py_contains lhs_hash id_key of
        Inl e \<Rightarrow> Inl e
      | Inr False \<Rightarrow> aoh_find rest id_key rhs_key_value (Suc i)
      | Inr True \<Rightarrow>
          (case py_getitem lhs_hash id_key of
             Inl e \<Rightarrow> Inl e
           | Inr v \<Rightarrow>
               if py_eq v rhs_key_value then Inr (Some i)
               else aoh_find rest id_key rhs_key_value (Suc i)))"

text \<open>
  \<^verbatim>\<open>_merge_dicts\<close> changes \<open>lhs\<close> in place and returns a node, which is \<open>lhs\<close>
  itself or, for \<^verbatim>\<open>HashMergeOpts.RIGHT\<close>, \<open>rhs\<close>. Both are results of the model:
  \<open>merge_dicts\<close> gives the pair of \<open>lhs\<close> as the call leaves it and of the node returned.
  The caller in \<^verbatim>\<open>_merge_arrays_of_hashes\<close> assigns the node returned to its loop
  variable only, so there it is the first component that stays in the list.

  \<open>deep_merge_items\<close> is the loop over \<^verbatim>\<open>rhs.items()\<close> with its variables
  \<open>buffer\<close> and \<open>buffer_pos\<close>; \<open>aoh_items\<close> is the loop over
  \<^verbatim>\<open>enumerate(rhs)\<close> of \<^verbatim>\<open>_merge_arrays_of_hashes\<close>. A left-hand side of the
  wrong kind is not guarded in the source; the model fails there as soon as a loop has an
  entry to place.
\<close>

function merge_dicts ::
    "merger_config \<Rightarrow> node \<Rightarrow> node \<Rightarrow> node option \<Rightarrow> parentref option \<Rightarrow> path
       \<Rightarrow> error + (node \<times> node)"
  and deep_merge_items ::
    "merger_config \<Rightarrow> node \<Rightarrow> path \<Rightarrow> entries \<Rightarrow> entries \<Rightarrow> nat \<Rightarrow> entries
       \<Rightarrow> error + entries"
  and merge_lists ::
    "merger_config \<Rightarrow> node \<Rightarrow> node \<Rightarrow> node option \<Rightarrow> parentref option \<Rightarrow> path
       \<Rightarrow> error + node"
  and merge_arrays_of_hashes ::
    "merger_config \<Rightarrow> node \<Rightarrow> node \<Rightarrow> node_coords \<Rightarrow> path \<Rightarrow> error + node"
  and aoh_items ::
    "merger_config \<Rightarrow> aoh_merge_opts \<Rightarrow> node \<Rightarrow> path \<Rightarrow> node list \<Rightarrow> nat \<Rightarrow> node list
       \<Rightarrow> error + node list"
where
  "merge_dicts cfg lhs rhs parent parentref p =
     (if p \<noteq> [] \<and> hash_merge_mode cfg (rhs, parent, parentref) = HM_LEFT then Inr (lhs, lhs)
      else if p \<noteq> [] \<and> hash_merge_mode cfg (rhs, parent, parentref) = HM_RIGHT
      then Inr (lhs, rhs)
      else
        (case rhs of
           Mapping ra rc rd \<Rightarrow>
             (case lhs of
                Mapping la lc ld \<Rightarrow>
                  (case deep_merge_items cfg rhs p ld [] 0 rd of
                     Inl e \<Rightarrow> Inl e
                   | Inr ld' \<Rightarrow> Inr (Mapping la lc ld', Mapping la lc ld'))
              | _ \<Rightarrow> if rd = [] then Inr (lhs, lhs) else Inl TypeError)
         | _ \<Rightarrow> Inl AttributeError))"
| "deep_merge_items cfg rhs p lhs buffer buffer_pos [] =
     Inr (fold (\<lambda>(b_key, b_val) l. dict_set l b_key b_val) buffer lhs)"
| "deep_merge_items cfg rhs p lhs buffer buffer_pos ((key, val) # rest) =
     (if dict_contains lhs key then
        (let lhs1 = fold (\<lambda>(b_key, b_val) l. dict_insert l buffer_pos b_key b_val) buffer lhs
         in case dict_get lhs1 key of
              None \<Rightarrow> Inl KeyError
            | Some cur \<Rightarrow>
                (case val of
                   Mapping va vc vd \<Rightarrow>
                     (case merge_dicts cfg cur val (Some rhs) (Some (KeyRef key))
                             (p @ [KeyRef key]) of
                        Inl e \<Rightarrow> Inl e
                      | Inr (cur', res) \<Rightarrow>
                          deep_merge_items cfg rhs p (dict_set lhs1 key res) []
                            (Suc buffer_pos) rest)
                 | Sequence va vc vs \<Rightarrow>
                     (case merge_lists cfg cur val (Some rhs) (Some (KeyRef key))
                             (p @ [KeyRef key]) of
                        Inl e \<Rightarrow> Inl e
                      | Inr res \<Rightarrow>
                          deep_merge_items cfg rhs p (dict_set lhs1 key res) []
                            (Suc buffer_pos) rest)
                 | Scalar va vc vv \<Rightarrow>
                     deep_merge_items cfg rhs p (dict_set lhs1 key val) []
                       (Suc buffer_pos) rest))
      else deep_merge_items cfg rhs p lhs (buffer @ [(key, val)]) (Suc buffer_pos) rest)"
| "merge_lists cfg lhs rhs parent parentref p =
     (case rhs of
        Sequence ra rc relems \<Rightarrow>
          (case relems of
             first # others \<Rightarrow>
               if isinstance_dict first
               then merge_arrays_of_hashes cfg lhs rhs (rhs, parent, parentref) p
               else merge_simple_lists cfg lhs rhs (rhs, parent, parentref) p
           | [] \<Rightarrow> Inr lhs)
      | _ \<Rightarrow> Inl TypeError)"
| "merge_arrays_of_hashes cfg lhs rhs node_coord p =
     (let merge_mode = aoh_merge_mode cfg node_coord in
      if merge_mode = AOH_LEFT then Inr lhs
      else if merge_mode = AOH_RIGHT then Inr rhs
      else
        (case rhs of
           Sequence ra rc relems \<Rightarrow>
             (case lhs of
                Sequence la lc lelems \<Rightarrow>
                  (case aoh_items cfg merge_mode rhs p lelems 0 relems of
                     Inl e \<Rightarrow> Inl e
                   | Inr lelems' \<Rightarrow> Inr (Sequence la lc lelems'))
              | _ \<Rightarrow> if relems = [] then Inr lhs else Inl TypeError)
         | _ \<Rightarrow> Inl TypeError))"
| "aoh_items cfg merge_mode rhs p lhs idx [] = Inr lhs"
| "aoh_items cfg merge_mode rhs p lhs idx (ele # rest) =
     (if merge_mode = AOH_DEEP then
        (let id_key = aoh_merge_key cfg (ele, Some rhs, Some (IndexRef idx)) ele in
         case py_getitem ele id_key of
           Inl e \<Rightarrow> Inl e
         | Inr rhs_key_value \<Rightarrow>
             (case aoh_find lhs id_key rhs_key_value 0 of
                Inl e \<Rightarrow> Inl e
              | Inr (Some i) \<Rightarrow>
                  (case merge_dicts cfg (lhs ! i) ele (Some rhs) (Some (IndexRef idx))
                          (p @ [IndexRef idx]) of
                     Inl e \<Rightarrow> Inl e
                   | Inr (lhs_hash', res) \<Rightarrow>
                       aoh_items cfg merge_mode rhs p (lhs[i := lhs_hash']) (Suc idx) rest)
              | Inr None \<Rightarrow>
                  aoh_items cfg merge_mode rhs p
                    (append_list_element lhs ele (anchor_name ele)) (Suc idx) rest))
      else if merge_mode = AOH_UNIQUE then
        (if \<not> list_ex (\<lambda>x. py_eq x ele) lhs
         then aoh_items cfg merge_mode rhs p
                (append_list_element lhs ele (anchor_name ele)) (Suc idx) rest
         else aoh_items cfg merge_mode rhs p lhs (Suc idx) rest)
      else aoh_items cfg merge_mode rhs p
             (append_list_element lhs ele (anchor_name ele)) (Suc idx) rest)"
  by pat_completeness auto

termination
  by (relation "measure (\<lambda>x. case x of
         Inl (Inl (cfg, lhs, rhs, parent, parentref, p)) \<Rightarrow> 2 * size rhs
       | Inl (Inr (cfg, rhs, p, lhs, buffer, buffer_pos, items)) \<Rightarrow>
           2 * size_list (size_prod size size) items
       | Inr (Inl (cfg, lhs, rhs, parent, parentref, p)) \<Rightarrow> 2 * size rhs + 1
       | Inr (Inr (Inl (cfg, lhs, rhs, node_coord, p))) \<Rightarrow> 2 * size rhs
       | Inr (Inr (Inr (cfg, merge_mode, rhs, p, lhs, idx, items))) \<Rightarrow>
           2 * size_list size items)")
     auto

section \<open>Anchor conflicts\<close>

subsection \<open>Fresh anchor names\<close>

text \<open>\<^verbatim>\<open>str(i)\<close> of an integer, and \<^verbatim>\<open>"{}".format(anchor)\<close> of a key of the anchor
  dict, which is a name or \<^verbatim>\<open>None\<close>.\<close>

fun nat_str :: "nat \<Rightarrow> string" where
  "nat_str n =
     (if n < 10 then [char_of (48 + n)]
      else nat_str (n div 10) @ [char_of (48 + n mod 10)])"

definition int_str :: "int \<Rightarrow> string" where
  "int_str i = (if i < 0 then CHR ''-'' # nat_str (nat (- i)) else nat_str (nat i))"

fun py_format :: "string option \<Rightarrow> string" where
  "py_format None = ''None''"
| "py_format (Some s) = s"

text \<open>One turn of the loop of \<^verbatim>\<open>_calc_unique_anchor\<close>:
  \<^verbatim>\<open>"{}_{}".format(anchor, str(hash(anchor)).replace("-", "_"))\<close>. Python's \<^verbatim>\<open>hash\<close>
  is a parameter.\<close>

definition next_anchor :: "(string option \<Rightarrow> int) \<Rightarrow> string option \<Rightarrow> string option" where
  "next_anchor py_hash anchor =
     Some (py_format anchor @ ''_'' @
           map (\<lambda>c. if c = CHR ''-'' then CHR ''_'' else c) (int_str (py_hash anchor)))"

fun key_length :: "string option \<Rightarrow> nat" where
  "key_length None = 0"
| "key_length (Some s) = length s"

function calc_unique_anchor ::
  "(string option \<Rightarrow> int) \<Rightarrow> string option \<Rightarrow> string option list \<Rightarrow> string option" where
  "calc_unique_anchor py_hash anchor known_anchors =
     (if anchor \<in> set known_anchors
      then calc_unique_anchor py_hash (next_anchor py_hash anchor) known_anchors
      else anchor)"
  by pat_completeness auto
termination
proof (relation "measure (\<lambda>(py_hash, anchor, known_anchors).
                   Suc (fold max (map key_length known_anchors) 0) - key_length anchor)")
  show "wf (measure (\<lambda>(py_hash, anchor, known_anchors).
                   Suc (fold max (map key_length known_anchors) 0) - key_length anchor))"
    by simp
next
  fix py_hash :: "string option \<Rightarrow> int" and anchor :: "string option"
    and known_anchors :: "string option list"
  assume member: "anchor \<in> set known_anchors"
  have bound: "key_length a \<le> fold max (map key_length ks) m" if "a \<in> set ks" for a ks m
    using that
  proof (induction ks arbitrary: m)
    case Nil
    then show ?case by simp
  next
    case (Cons k ks)
    have mono: "m \<le> fold max (map key_length ks) m" for m
      by (induction ks arbitrary: m) (auto intro: order_trans [OF max.cobounded2])
    show ?case
    proof (cases "a = k")
      case True
      have "key_length k \<le> max (key_length k) m" by simp
      also have "\<dots> \<le> fold max (map key_length ks) (max (key_length k) m)" by (rule mono)
      finally show ?thesis using True by simp
    next
      case False
      then show ?thesis using Cons by simp
    qed
  qed
  have longer: "key_length anchor < key_length (next_anchor py_hash anchor)"
    by (cases anchor) (simp_all add: next_anchor_def)
  show "((py_hash, next_anchor py_hash anchor, known_anchors), py_hash, anchor, known_anchors)
          \<in> measure (\<lambda>(py_hash, anchor, known_anchors).
                   Suc (fold max (map key_length known_anchors) 0) - key_length anchor)"
    using bound [OF member, of 0] longer by simp
qed

text \<open>The equation of \<open>calc_unique_anchor\<close> is used where a proof asks for it, not by the
  simplifier on its own.\<close>

declare calc_unique_anchor.simps [simp del]

subsection \<open>Renaming an anchor\<close>

text \<open>\<^verbatim>\<open>node.anchor.value = new_anchor\<close>.\<close>

fun set_anchor :: "node \<Rightarrow> string option \<Rightarrow> node" where
  "set_anchor (Scalar a c v) new_anchor = Scalar (Anchor new_anchor) c v"
| "set_anchor (Sequence a c xs) new_anchor = Sequence (Anchor new_anchor) c xs"
| "set_anchor (Mapping a c d) new_anchor = Mapping (Anchor new_anchor) c d"

text \<open>
  \<^verbatim>\<open>rename_anchor\<close> walks the document as \<^verbatim>\<open>scan_for_anchors\<close> does and sets the new
  name wherever it reads the old one: on a key and on a value of a dict, and on a node that
  is neither a dict nor a list where it is an element of a list or the document itself. In
  the tree model every place is renamed on its own. In the code the name is written into
  the node object, so that a node renamed at one place has the new name wherever the same
  object stands. The two agree at every place the walk reads; at a place it does not read
  (a dict or a list that is an element of a list, a node inside a key) that holds an object
  renamed elsewhere, the code has the new name and the model the old one.
\<close>

function rename_anchor :: "node \<Rightarrow> string option \<Rightarrow> string option \<Rightarrow> node" where
  "rename_anchor (Mapping a c d) anchor new_anchor =
     Mapping a c
       (map (\<lambda>(key, val).
               (if anchor_is key anchor then set_anchor key new_anchor else key,
                rename_anchor (if anchor_is val anchor then set_anchor val new_anchor else val)
                  anchor new_anchor))
            d)"
| "rename_anchor (Sequence a c xs) anchor new_anchor =
     Sequence a c (map (\<lambda>ele. rename_anchor ele anchor new_anchor) xs)"
| "rename_anchor (Scalar a c v) anchor new_anchor =
     (if anchor_is (Scalar a c v) anchor then set_anchor (Scalar a c v) new_anchor
      else Scalar a c v)"
  by pat_completeness auto
termination
proof (relation "measure (\<lambda>(n, anchor, new_anchor). size n)")
  show "wf (measure (\<lambda>(n, anchor, new_anchor). size n))"
    by simp
next
  fix a c and d :: entries and anchor new_anchor :: "string option" and x :: "node \<times> node"
    and key val :: node
  assume "x \<in> set d" and "(key, val) = x"
  then have "size val < Suc (size_list (size_prod size size) d)"
    by (induction d) auto
  moreover have "size (set_anchor val new_anchor) = size val"
    by (cases val) simp_all
  ultimately show "((if anchor_is val anchor then set_anchor val new_anchor else val,
              anchor, new_anchor), Mapping a c d, anchor, new_anchor)
          \<in> measure (\<lambda>(n, anchor, new_anchor). size n)"
    by simp
next
  fix a c and xs :: "node list" and anchor new_anchor :: "string option" and ele :: node
  assume "ele \<in> set xs"
  then have "size ele < Suc (size_list size xs)"
    by (induction xs) auto
  then show "((ele, anchor, new_anchor), Sequence a c xs, anchor, new_anchor)
          \<in> measure (\<lambda>(n, anchor, new_anchor). size n)"
    by simp
qed

subsection \<open>Overwriting the aliases of an anchor\<close>

text \<open>
  The path \<^verbatim>\<open>search_for_anchor\<close> builds: \<^verbatim>\<open>/key\<close>, \<^verbatim>\<open>[idx]\<close> and
  \<^verbatim>\<open>/&anchor\<close> segments; the result \<^verbatim>\<open>None\<close> is \<open>None\<close>. Each \<^verbatim>\<open>for\<close> loop
  of the source returns in its first turn.
\<close>

datatype path_segment = SegKey node | SegIndex nat | SegAnchor "string option"

type_synonym yaml_path = "path_segment list"

fun search_for_anchor :: "node \<Rightarrow> string option \<Rightarrow> yaml_path \<Rightarrow> yaml_path option" where
  "search_for_anchor (Mapping a c d) anchor p =
     (case d of
        [] \<Rightarrow> None
      | (key, val) # rest \<Rightarrow>
          if anchor_is key anchor then Some (p @ [SegAnchor anchor])
          else if anchor_is val anchor then Some (p @ [SegKey key])
          else search_for_anchor val anchor (p @ [SegKey key]))"
| "search_for_anchor (Sequence a c xs) anchor p =
     (case xs of
        [] \<Rightarrow> None
      | ele # rest \<Rightarrow> search_for_anchor ele anchor (p @ [SegIndex 0]))"
| "search_for_anchor (Scalar a c v) anchor p =
     (if anchor_is (Scalar a c v) anchor then Some p else None)"

text \<open>\<^verbatim>\<open>d.pop(key)\<close>: the value and the dict without the entry.\<close>

fun dict_pop :: "entries \<Rightarrow> node \<Rightarrow> (node \<times> entries) option" where
  "dict_pop [] key = None"
| "dict_pop ((k, v) # d) key =
     (if py_eq k key then Some (v, d)
      else (case dict_pop d key of
              None \<Rightarrow> None
            | Some (x, d') \<Rightarrow> Some (x, (k, v) # d')))"

text \<open>The first loop of \<^verbatim>\<open>recursive_anchor_replace\<close> on a dict, over the keys that
  carried the anchor when the loop began.\<close>

fun replace_keys :: "(nat \<times> node) list \<Rightarrow> entries \<Rightarrow> node \<Rightarrow> error + entries" where
  "replace_keys [] d repl_node = Inr d"
| "replace_keys ((idx, key) # rest) d repl_node =
     (case dict_pop d key of
        None \<Rightarrow> Inl KeyError
      | Some (v, d') \<Rightarrow> replace_keys rest (dict_insert d' idx repl_node v) repl_node)"

text \<open>The recursion of \<^verbatim>\<open>recursive_anchor_replace\<close> goes through the values of the
  dict as the first loop leaves it; these are values of the dict the call was given, which
  is why it ends.\<close>

definition values_size :: "entries \<Rightarrow> nat" where
  "values_size d = size_list (\<lambda>(k, v). size v) d"

lemma values_size_dict_set:
  "values_size (dict_set d key val) \<le> values_size d + size val + 1"
  by (induction d key val rule: dict_set.induct) (auto simp: values_size_def)

lemma values_size_dict_pop:
  "dict_pop d key = Some (v, d') \<Longrightarrow> values_size d' + size v + 1 = values_size d"
  by (induction d key arbitrary: v d' rule: dict_pop.induct)
     (auto simp: values_size_def split: if_splits option.splits)

lemma values_size_refill:
  "values_size
     (fold (\<lambda>(index, (old_key, old_val)) self.
              dict_set (if pos = index then dict_set self key val else self) old_key old_val)
           es acc)
   \<le> values_size acc + values_size (map snd es)
       + (size val + 1) * length (filter (\<lambda>(index, e). index = pos) es)"
proof (induction es arbitrary: acc)
  case Nil
  then show ?case by simp
next
  case (Cons e es)
  obtain index old_key old_val where e: "e = (index, (old_key, old_val))"
    by (cases e) auto
  let ?acc1 = "if pos = index then dict_set acc key val else acc"
  have one: "values_size ?acc1 \<le> values_size acc + (if pos = index then size val + 1 else 0)"
    using values_size_dict_set [of acc key val] by simp
  have two: "values_size (dict_set ?acc1 old_key old_val)
               \<le> values_size ?acc1 + size old_val + 1"
    by (rule values_size_dict_set)
  have hd: "values_size (map snd (e # es)) = size old_val + 1 + values_size (map snd es)"
    by (simp add: e values_size_def)
  show ?case
    using Cons.IH [of "dict_set ?acc1 old_key old_val"] one two hd
    by (simp add: e split: if_splits)
qed

lemma filter_index_enumerate:
  "length (filter (\<lambda>(index, e). index = pos) (enumerate n d)) \<le> 1"
proof -
  have none: "filter (\<lambda>(index, e). index = pos) (enumerate m xs) = []"
    if "pos < m" for m and xs :: "'a list"
    using that by (induction xs arbitrary: m) auto
  show ?thesis
  proof (induction d arbitrary: n)
    case Nil
    then show ?case by simp
  next
    case (Cons x d)
    show ?case
    proof (cases "n = pos")
      case True
      then show ?thesis using none [of "Suc n" d] by simp
    next
      case False
      then show ?thesis using Cons [of "Suc n"] by simp
    qed
  qed
qed

lemma values_size_dict_insert:
  "values_size (dict_insert d pos key val) \<le> values_size d + size val + 1"
proof (cases "pos \<ge> length d")
  case True
  then show ?thesis
    using values_size_dict_set [of d key val] by (simp add: dict_insert_def)
next
  case False
  have "values_size (map snd (enumerate 0 d)) = values_size d"
    by (simp add: enumerate_eq_zip)
  moreover have "(size val + 1) * length (filter (\<lambda>(index, e). index = pos) (enumerate 0 d))
                   \<le> size val + 1"
    using filter_index_enumerate [of pos 0 d]
    by (metis mult.right_neutral mult_le_mono2)
  moreover have "values_size [] = 0"
    by (simp add: values_size_def)
  ultimately show ?thesis
    using False values_size_refill [of pos key val "enumerate 0 d" "[]"]
    by (simp add: dict_insert_def)
qed

lemma values_size_replace_keys:
  "replace_keys ks d repl_node = Inr d1 \<Longrightarrow> values_size d1 \<le> values_size d"
proof (induction ks d repl_node rule: replace_keys.induct)
  case (1 d repl_node)
  then show ?case by simp
next
  case (2 idx key rest d repl_node)
  from "2.prems" obtain v d' where pop: "dict_pop d key = Some (v, d')"
    and rec: "replace_keys rest (dict_insert d' idx repl_node v) repl_node = Inr d1"
    by (auto split: option.splits)
  have "values_size d1 \<le> values_size (dict_insert d' idx repl_node v)"
    using "2.IH" pop rec by simp
  also have "\<dots> \<le> values_size d' + size v + 1"
    by (rule values_size_dict_insert)
  also have "\<dots> = values_size d"
    by (rule values_size_dict_pop [OF pop])
  finally show ?case .
qed

lemma values_size_le_size:
  "values_size d \<le> size_list (size_prod size size) d"
  by (induction d) (auto simp: values_size_def)

function recursive_anchor_replace :: "node \<Rightarrow> string option \<Rightarrow> node \<Rightarrow> error + node"
  and replace_items :: "entries \<Rightarrow> string option \<Rightarrow> node \<Rightarrow> error + entries"
  and replace_elements :: "node list \<Rightarrow> string option \<Rightarrow> node \<Rightarrow> error + node list"
where
  "recursive_anchor_replace (Mapping a c d) anchor_val repl_node =
     (case replace_keys
             (filter (\<lambda>(idx, key). anchor_is key anchor_val) (enumerate 0 (map fst d)))
             d repl_node of
        Inl e \<Rightarrow> Inl e
      | Inr d1 \<Rightarrow>
          (case replace_items d1 anchor_val repl_node of
             Inl e \<Rightarrow> Inl e
           | Inr d2 \<Rightarrow> Inr (Mapping a c d2)))"
| "recursive_anchor_replace (Sequence a c xs) anchor_val repl_node =
     (case replace_elements xs anchor_val repl_node of
        Inl e \<Rightarrow> Inl e
      | Inr xs' \<Rightarrow> Inr (Sequence a c xs'))"
| "recursive_anchor_replace (Scalar a c v) anchor_val repl_node = Inr (Scalar a c v)"
| "replace_items [] anchor_val repl_node = Inr []"
| "replace_items ((key, val) # rest) anchor_val repl_node =
     (case (if anchor_is val anchor_val then Inr repl_node
            else recursive_anchor_replace val anchor_val repl_node) of
        Inl e \<Rightarrow> Inl e
      | Inr val' \<Rightarrow>
          (case replace_items rest anchor_val repl_node of
             Inl e \<Rightarrow> Inl e
           | Inr rest' \<Rightarrow> Inr ((key, val') # rest')))"
| "replace_elements [] anchor_val repl_node = Inr []"
| "replace_elements (ele # rest) anchor_val repl_node =
     (case (if anchor_is ele anchor_val then Inr repl_node
            else recursive_anchor_replace ele anchor_val repl_node) of
        Inl e \<Rightarrow> Inl e
      | Inr ele' \<Rightarrow>
          (case replace_elements rest anchor_val repl_node of
             Inl e \<Rightarrow> Inl e
           | Inr rest' \<Rightarrow> Inr (ele' # rest')))"
  by pat_completeness auto
termination
proof (relation "measure (\<lambda>x. case x of
         Inl (n, anchor_val, repl_node) \<Rightarrow> 2 * size n + 1
       | Inr (Inl (d, anchor_val, repl_node)) \<Rightarrow> 2 * values_size d
       | Inr (Inr (xs, anchor_val, repl_node)) \<Rightarrow> 2 * size_list size xs)",
       goal_cases)
  case 1
  then show ?case by simp
next
  case (2 a c d anchor_val repl_node d1)
  then have "values_size d1 \<le> values_size d"
    by (rule values_size_replace_keys)
  then show ?case
    using values_size_le_size [of d] by simp
qed (auto simp: values_size_def)

text \<open>
  Modelled from the spec: the path resolver \<^verbatim>\<open>Processor.get_nodes\<close> is not part of the
  sources. It is the parameter \<open>get_nodes\<close>: given the document and the path that
  \<^verbatim>\<open>search_for_anchor\<close> returned, it fails or gives the nodes found, of which
  \<^verbatim>\<open>_overwrite_aliased_values\<close> takes the first. When there is none the variable
  \<open>source_node\<close> keeps its initial value \<^verbatim>\<open>None\<close>.
\<close>

type_synonym path_resolver = "node \<Rightarrow> yaml_path option \<Rightarrow> error + node list"

definition py_none :: node where
  "py_none = Scalar NoAttr None SNull"

definition overwrite_aliased_values ::
  "path_resolver \<Rightarrow> node \<Rightarrow> node \<Rightarrow> string option \<Rightarrow> error + node" where
  "overwrite_aliased_values get_nodes source_dom target_dom anchor =
     (let source_path = search_for_anchor source_dom anchor [] in
      case get_nodes source_dom source_path of
        Inl e \<Rightarrow> Inl e
      | Inr nodes \<Rightarrow>
          recursive_anchor_replace target_dom anchor
            (case nodes of [] \<Rightarrow> py_none | source_node # others \<Rightarrow> source_node))"

subsection \<open>Resolving the conflicts\<close>

text \<open>
  \<^verbatim>\<open>_resolve_anchor_conflicts\<close> works on the pair of \<^verbatim>\<open>self.data\<close> and \<open>rhs\<close>.
  \<open>resolve_anchor\<close> is the body of its loop for one anchor, with the two anchor dicts of
  the scans made before the loop; a failure comes with the two documents as they were when
  that turn of the loop began.
\<close>

type_synonym documents = "node \<times> node"

definition resolve_anchor ::
  "merger_config \<Rightarrow> (string option \<Rightarrow> int) \<Rightarrow> path_resolver \<Rightarrow> anchors \<Rightarrow> anchors
     \<Rightarrow> documents \<Rightarrow> string option \<Rightarrow> (error \<times> documents) + documents" where
  "resolve_anchor cfg py_hash get_nodes lhs_anchors rhs_anchors docs anchor =
     (case docs of
        (data, rhs) \<Rightarrow>
          (case map_of lhs_anchors anchor of
             None \<Rightarrow> Inl (KeyError, docs)
           | Some prime_alias \<Rightarrow>
               (case map_of rhs_anchors anchor of
                  None \<Rightarrow> Inl (KeyError, docs)
                | Some reader_alias \<Rightarrow>
                    if isinstance_dict prime_alias then
                      Inl (Fatal 142
                            ''Dictionary-based anchor conflict resolution is not yet implemented.'',
                           docs)
                    else if isinstance_list prime_alias then
                      Inl (Fatal 142
                            ''List-based anchor conflict resolution is not yet implemented.'',
                           docs)
                    else if \<not> py_eq prime_alias reader_alias then
                      (case anchor_merge_mode cfg of
                         ACR_RENAME \<Rightarrow>
                           Inr (data,
                                rename_anchor rhs anchor
                                  (calc_unique_anchor py_hash anchor
                                     (map fst lhs_anchors @ map fst rhs_anchors)))
                       | ACR_LEFT \<Rightarrow>
                           (case overwrite_aliased_values get_nodes data rhs anchor of
                              Inl e \<Rightarrow> Inl (e, docs)
                            | Inr rhs' \<Rightarrow> Inr (data, rhs'))
                       | ACR_RIGHT \<Rightarrow>
                           (case overwrite_aliased_values get_nodes rhs data anchor of
                              Inl e \<Rightarrow> Inl (e, docs)
                            | Inr data' \<Rightarrow> Inr (data', rhs))
                       | ACR_STOP \<Rightarrow>
                           Inl (Fatal 4 (''Aborting due to anchor conflict, '' @ py_format anchor),
                                docs))
                    else Inr docs)))"

fun resolve_loop ::
  "merger_config \<Rightarrow> (string option \<Rightarrow> int) \<Rightarrow> path_resolver \<Rightarrow> anchors \<Rightarrow> anchors
     \<Rightarrow> string option list \<Rightarrow> documents \<Rightarrow> (error \<times> documents) + documents" where
  "resolve_loop cfg py_hash get_nodes lhs_anchors rhs_anchors [] docs = Inr docs"
| "resolve_loop cfg py_hash get_nodes lhs_anchors rhs_anchors (anchor # rest) docs =
     (case resolve_anchor cfg py_hash get_nodes lhs_anchors rhs_anchors docs anchor of
        Inl failure \<Rightarrow> Inl failure
      | Inr docs' \<Rightarrow> resolve_loop cfg py_hash get_nodes lhs_anchors rhs_anchors rest docs')"

text \<open>The anchors the loop visits: those of \<open>rhs\<close>, in the order of its anchor dict, that
  are in the anchor dict of \<^verbatim>\<open>self.data\<close> too.\<close>

definition shared_anchors :: "anchors \<Rightarrow> anchors \<Rightarrow> string option list" where
  "shared_anchors lhs_anchors rhs_anchors =
     filter (\<lambda>anchor. anchor \<in> set (map fst lhs_anchors)) (map fst rhs_anchors)"

definition resolve_anchor_conflicts ::
  "merger_config \<Rightarrow> (string option \<Rightarrow> int) \<Rightarrow> path_resolver \<Rightarrow> node \<Rightarrow> node
     \<Rightarrow> (error \<times> documents) + documents" where
  "resolve_anchor_conflicts cfg py_hash get_nodes data rhs =
     (let lhs_anchors = scan_for_anchors data [];
          rhs_anchors = scan_for_anchors rhs []
      in resolve_loop cfg py_hash get_nodes lhs_anchors rhs_anchors
           (shared_anchors lhs_anchors rhs_anchors) (data, rhs))"

section \<open>Merging a document into the target\<close>

fun delete_all_comments :: "node \<Rightarrow> node" where
  "delete_all_comments (Mapping a c d) =
     Mapping a None (map (\<lambda>(key, val). (delete_all_comments key, delete_all_comments val)) d)"
| "delete_all_comments (Sequence a c xs) = Sequence a None (map delete_all_comments xs)"
| "delete_all_comments (Scalar a c v) = Scalar a None v"

text \<open>
  \<^verbatim>\<open>merge_with\<close> gives the new value of \<^verbatim>\<open>self.data\<close>. \<^verbatim>\<open>self.config.prepare\<close>
  belongs to the policy provider: \<open>cfg\<close> stands for the policies as prepared for \<open>rhs\<close>.
\<close>

definition merge_with ::
  "merger_config \<Rightarrow> (string option \<Rightarrow> int) \<Rightarrow> path_resolver \<Rightarrow> node \<Rightarrow> node
     \<Rightarrow> error + node" where
  "merge_with cfg py_hash get_nodes data rhs =
     (case resolve_anchor_conflicts cfg py_hash get_nodes data (delete_all_comments rhs) of
        Inl (e, docs) \<Rightarrow> Inl e
      | Inr (data1, rhs1) \<Rightarrow>
          if isinstance_dict rhs1 then
            (case merge_dicts cfg data1 rhs1 None None [] of
               Inl e \<Rightarrow> Inl e
             | Inr (lhs', res) \<Rightarrow> Inr res)
          else if isinstance_list rhs1 then merge_lists cfg data1 rhs1 None None []
          else Inr data1)"

section \<open>Example documents\<close>

text \<open>A scalar as the loader gives it without an anchor, and one anchored as \<open>name\<close>;
  the policy provider that answers the same modes everywhere, with identity key \<open>id\<close>.\<close>

definition plain :: "scalar \<Rightarrow> node" where
  "plain v = Scalar NoAttr None v"

definition anchored :: "string \<Rightarrow> scalar \<Rightarrow> node" where
  "anchored name v = Scalar (Anchor (Some name)) None v"

definition uniform_config ::
  "hash_merge_opts \<Rightarrow> array_merge_opts \<Rightarrow> aoh_merge_opts \<Rightarrow> anchor_conflict_resolutions
     \<Rightarrow> merger_config" where
  "uniform_config hm am aohm acr =
     \<lparr> hash_merge_mode = (\<lambda>coord. hm),
       array_merge_mode = (\<lambda>coord. am),
       aoh_merge_mode = (\<lambda>coord. aohm),
       aoh_merge_key = (\<lambda>coord ele. plain (SStr ''id'')),
       anchor_merge_mode = acr \<rparr>"

text \<open>
  The target \<open>{k: &x 1}\<close> and the incoming \<open>{k: &x 2}\<close>, whose anchors \<open>x\<close> conflict; the
  target \<open>{m: &b {k: 1}}\<close> and the incoming \<open>{m: &b {k: 2}}\<close>, whose anchor \<open>b\<close> is on a
  dict; a hash function and a path resolver to run the examples with.
\<close>

definition conflict_target :: node where
  "conflict_target = Mapping NoAttr None [(plain (SStr ''k''), anchored ''x'' (SInt 1))]"

definition conflict_incoming :: node where
  "conflict_incoming = Mapping NoAttr None [(plain (SStr ''k''), anchored ''x'' (SInt 2))]"

definition container_target :: node where
  "container_target =
     Mapping NoAttr None
       [(plain (SStr ''m''),
         Mapping (Anchor (Some ''b'')) None [(plain (SStr ''k''), plain (SInt 1))])]"

definition container_incoming :: node where
  "container_incoming =
     Mapping NoAttr None
       [(plain (SStr ''m''),
         Mapping (Anchor (Some ''b'')) None [(plain (SStr ''k''), plain (SInt 2))])]"

definition example_hash :: "string option \<Rightarrow> int" where
  "example_hash anchor = - 7"

definition example_resolver :: path_resolver where
  "example_resolver doc p = Inr []"

text \<open>The target \<open>{m: &b {k: 1}, k: &x 1}\<close> and the incoming \<open>{m: &b {k: 1}, k: &x 2}\<close>:
  the anchor \<open>b\<close>, on a dict, comes before the conflicting anchor \<open>x\<close>.\<close>

definition mixed_target :: node where
  "mixed_target =
     Mapping NoAttr None
       [(plain (SStr ''m''),
         Mapping (Anchor (Some ''b'')) None [(plain (SStr ''k''), plain (SInt 1))]),
        (plain (SStr ''k''), anchored ''x'' (SInt 1))]"

definition mixed_incoming :: node where
  "mixed_incoming =
     Mapping NoAttr None
       [(plain (SStr ''m''),
         Mapping (Anchor (Some ''b'')) None [(plain (SStr ''k''), plain (SInt 1))]),
        (plain (SStr ''k''), anchored ''x'' (SInt 2))]"

section \<open>The nodes of a document and the places where anchors are read\<close>

subsection \<open>What the anchor scan records\<close>

text \<open>
  The records that \<^verbatim>\<open>scan_for_anchors\<close> makes, in the order it makes them: for every entry
  of a dict the key, then the value, then (for a dict or a list as value) the records made
  inside the value; for a list the records made for its elements in turn. A record is
  listed with the name it is made under: a name that is not \<^verbatim>\<open>None\<close> on a key or a value,
  the anchor attribute's value on a scalar reached as a list element or as the document
  itself. The list follows the code: no record is made for a dict or a list that is an
  element of a list or the document itself, nor for what is inside a key.
\<close>

fun anchor_visits :: "node \<Rightarrow> (string option \<times> node) list" where
  "anchor_visits (Mapping a c d) =
     concat (map (\<lambda>(key, val).
                    (case anchor_of key of Anchor (Some n) \<Rightarrow> [(Some n, key)] | _ \<Rightarrow> []) @
                    (case anchor_of val of Anchor (Some n) \<Rightarrow> [(Some n, val)] | _ \<Rightarrow> []) @
                    (if isinstance_dict val \<or> isinstance_list val then anchor_visits val
                     else []))
                 d)"
| "anchor_visits (Sequence a c xs) = concat (map anchor_visits xs)"
| "anchor_visits (Scalar a c v) =
     (case a of Anchor name \<Rightarrow> [(name, Scalar a c v)] | NoAttr \<Rightarrow> [])"

text \<open>The nodes recorded under \<open>name\<close>, in the order of the records.\<close>

definition occurrences :: "string option \<Rightarrow> node \<Rightarrow> node list" where
  "occurrences name doc = map snd (filter (\<lambda>(k, n). k = name) (anchor_visits doc))"

subsection \<open>Every node of a document\<close>

text \<open>
  Every node of a document, in document order: the document itself, then for a mapping,
  entry by entry, the key, the nodes inside the key, the value and the nodes inside the
  value, and for a sequence, element by element, the element and the nodes inside it. Each
  node comes with a mark that tells whether \<^verbatim>\<open>scan_for_anchors\<close> and \<^verbatim>\<open>rename_anchor\<close>
  read the anchor of the node at that place. They read it on a key and on a value of a dict
  they walk through, and on a node that is neither a dict nor a list when it is an element
  of a list or the document itself. They do not read it on a dict or a list that is an
  element of a list or the document itself, and they do not walk into keys.
\<close>

fun unread_nodes :: "node \<Rightarrow> (bool \<times> node) list" where
  "unread_nodes (Mapping a c d) =
     concat (map (\<lambda>(key, val). (False, key) # unread_nodes key @ (False, val) # unread_nodes val)
                 d)"
| "unread_nodes (Sequence a c xs) = concat (map (\<lambda>ele. (False, ele) # unread_nodes ele) xs)"
| "unread_nodes (Scalar a c v) = []"

fun inner_nodes :: "node \<Rightarrow> (bool \<times> node) list" where
  "inner_nodes (Mapping a c d) =
     concat (map (\<lambda>(key, val). (True, key) # unread_nodes key @ (True, val) # inner_nodes val)
                 d)"
| "inner_nodes (Sequence a c xs) =
     concat (map (\<lambda>ele. (\<not> isinstance_dict ele \<and> \<not> isinstance_list ele, ele) # inner_nodes ele)
                 xs)"
| "inner_nodes (Scalar a c v) = []"

definition marked_nodes :: "node \<Rightarrow> (bool \<times> node) list" where
  "marked_nodes doc = (\<not> isinstance_dict doc \<and> \<not> isinstance_list doc, doc) # inner_nodes doc"

definition subnodes :: "node \<Rightarrow> node list" where
  "subnodes doc = map snd (marked_nodes doc)"

text \<open>The nodes of the document that carry the anchor name, in document order.\<close>

definition carriers :: "string \<Rightarrow> node \<Rightarrow> node list" where
  "carriers name doc = filter (\<lambda>n. anchor_is n (Some name)) (subnodes doc)"

text \<open>Every node of the document that carries the name stands where the anchor is read:
  it is a key or a value of a mapping, or a scalar that is an element of a sequence or the
  document itself, and it is not inside a key.\<close>

definition read_where_carried :: "string \<Rightarrow> node \<Rightarrow> bool" where
  "read_where_carried name doc =
     list_all (\<lambda>(marked, n). anchor_is n (Some name) \<longrightarrow> marked) (marked_nodes doc)"





subsection \<open>Example documents with an anchored mapping as a sequence element\<close>

text \<open>The target \<open>{hosts: [&web {name: a}]}\<close> and the incoming \<open>{hosts: [&web {name: b}]}\<close>.
  The mapping at the root and the sequence have the anchor attribute that the loader gives
  to every mapping and sequence, without a name.\<close>

definition hosts_target :: node where
  "hosts_target =
     Mapping (Anchor None) None
       [(plain (SStr ''hosts''),
         Sequence (Anchor None) None
           [Mapping (Anchor (Some ''web'')) None [(plain (SStr ''name''), plain (SStr ''a''))]])]"

definition hosts_incoming :: node where
  "hosts_incoming =
     Mapping (Anchor None) None
       [(plain (SStr ''hosts''),
         Sequence (Anchor None) None
           [Mapping (Anchor (Some ''web'')) None [(plain (SStr ''name''), plain (SStr ''b''))]])]"

section \<open>Anchor dicts as association lists\<close>

lemma map_of_keys: "map_of al k = Some v \<Longrightarrow> k \<in> set (map fst al)"
  by (induction al) (auto split: if_splits)

lemma keys_map_of: "k \<in> set (map fst al) \<Longrightarrow> \<exists>v. map_of al k = Some v"
  by (induction al) auto

lemma shared_anchors_iff:
  "a \<in> set (shared_anchors L R) \<longleftrightarrow> a \<in> set (map fst L) \<and> a \<in> set (map fst R)"
  by (auto simp: shared_anchors_def)

section \<open>Deep merge of dicts\<close>

text \<open>
  C8. A deep merge (at the root, or where the hash mode is \<open>HM_DEEP\<close>) of target
  \<open>{a: 1, b: 2}\<close> with incoming \<open>{b: 3, c: 4}\<close> gives \<open>{a: 1, b: 3, c: 4}\<close> in the key
  order a, b, c: the value of \<open>b\<close> is written at the place \<open>b\<close> had in the target. Target
  \<open>{z: 1}\<close> with incoming \<open>{a: 2, b: 3}\<close> gives the key order z, a, b. Both components of
  the result, the target as left and the node returned, are that dict.
\<close>

theorem deep_merge_examples:
  assumes "p = [] \<or> (\<forall>coord. hash_merge_mode cfg coord = HM_DEEP)"
  shows
    "merge_dicts cfg
       (Mapping la lc [(plain (SStr ''a''), plain (SInt 1)), (plain (SStr ''b''), plain (SInt 2))])
       (Mapping ra rc [(plain (SStr ''b''), plain (SInt 3)), (plain (SStr ''c''), plain (SInt 4))])
       parent parentref p
     = Inr (Mapping la lc [(plain (SStr ''a''), plain (SInt 1)),
                           (plain (SStr ''b''), plain (SInt 3)),
                           (plain (SStr ''c''), plain (SInt 4))],
            Mapping la lc [(plain (SStr ''a''), plain (SInt 1)),
                           (plain (SStr ''b''), plain (SInt 3)),
                           (plain (SStr ''c''), plain (SInt 4))])
     \<and>
     merge_dicts cfg
       (Mapping la lc [(plain (SStr ''z''), plain (SInt 1))])
       (Mapping ra rc [(plain (SStr ''a''), plain (SInt 2)), (plain (SStr ''b''), plain (SInt 3))])
       parent parentref p
     = Inr (Mapping la lc [(plain (SStr ''z''), plain (SInt 1)),
                           (plain (SStr ''a''), plain (SInt 2)),
                           (plain (SStr ''b''), plain (SInt 3))],
            Mapping la lc [(plain (SStr ''z''), plain (SInt 1)),
                           (plain (SStr ''a''), plain (SInt 2)),
                           (plain (SStr ''b''), plain (SInt 3))])"
  using assms by (auto simp: plain_def dict_contains_def)

theorem deep_merge_examples_witness:
  "(\<forall>coord. hash_merge_mode (uniform_config HM_DEEP AM_ALL AOH_DEEP ACR_STOP) coord = HM_DEEP)
   \<and>
   merge_dicts (uniform_config HM_DEEP AM_ALL AOH_DEEP ACR_STOP)
       (Mapping NoAttr None [(plain (SStr ''a''), plain (SInt 1)), (plain (SStr ''b''), plain (SInt 2))])
       (Mapping NoAttr None [(plain (SStr ''b''), plain (SInt 3)), (plain (SStr ''c''), plain (SInt 4))])
       None None [KeyRef (plain (SStr ''k''))]
     = Inr (Mapping NoAttr None [(plain (SStr ''a''), plain (SInt 1)),
                           (plain (SStr ''b''), plain (SInt 3)),
                           (plain (SStr ''c''), plain (SInt 4))],
            Mapping NoAttr None [(plain (SStr ''a''), plain (SInt 1)),
                           (plain (SStr ''b''), plain (SInt 3)),
                           (plain (SStr ''c''), plain (SInt 4))])"
proof -
  have deep: "\<forall>coord. hash_merge_mode (uniform_config HM_DEEP AM_ALL AOH_DEEP ACR_STOP) coord = HM_DEEP"
    by (simp add: uniform_config_def)
  then have "[KeyRef (plain (SStr ''k''))] = [] \<or>
    (\<forall>coord. hash_merge_mode (uniform_config HM_DEEP AM_ALL AOH_DEEP ACR_STOP) coord = HM_DEEP)"
    by simp
  from deep_merge_examples [OF this, of NoAttr None NoAttr None None None] deep
  show ?thesis by simp
qed

section \<open>The anchor scan records the last node it reads\<close>

lemma map_of_anchors_set: "map_of (anchors_set acc k v) = (map_of acc)(k \<mapsto> v)"
  by (induction acc k v rule: anchors_set.induct) auto

lemma scan_entries_map_of:
  assumes "\<And>key val acc. (key, val) \<in> set d \<Longrightarrow>
             map_of (scan_for_anchors val acc) = map_of acc ++ map_of (rev (anchor_visits val))"
  shows "map_of (scan_for_anchors (Mapping a c d) acc) =
         map_of acc ++ map_of (rev (anchor_visits (Mapping a c d)))"
  using assms
proof (induction d arbitrary: acc)
  case Nil
  then show ?case by simp
next
  case (Cons e d)
  obtain key val where e: "e = (key, val)" by (cases e)
  have tl: "\<And>acc. map_of (scan_for_anchors (Mapping a c d) acc) =
         map_of acc ++ map_of (rev (anchor_visits (Mapping a c d)))"
    using Cons.IH Cons.prems by auto
  have hd: "\<And>acc. map_of (scan_for_anchors val acc) =
         map_of acc ++ map_of (rev (anchor_visits val))"
    using Cons.prems e by auto
  show ?case
    using tl
    by (simp add: e Let_def hd map_of_anchors_set split: anchor_attr.splits option.splits)
qed

lemma scan_map_of:
  "map_of (scan_for_anchors doc acc) = map_of acc ++ map_of (rev (anchor_visits doc))"
proof (induction doc arbitrary: acc)
  case (Scalar a c v)
  then show ?case by (cases a) (auto simp: map_of_anchors_set map_add_def)
next
  case (Sequence a c xs)
  then show ?case
  proof (induction xs arbitrary: acc)
    case Nil
    then show ?case by simp
  next
    case (Cons x xs)
    then show ?case by simp
  qed
next
  case (Mapping a c d)
  show ?case
  proof (rule scan_entries_map_of)
    fix key val acc
    assume "(key, val) \<in> set d"
    then show "map_of (scan_for_anchors val acc) =
               map_of acc ++ map_of (rev (anchor_visits val))"
      using Mapping by fastforce
  qed
qed

lemma map_of_rev_last:
  "map_of (rev vs) name =
     (case filter (\<lambda>(k, n). k = name) vs of [] \<Rightarrow> None | ws \<Rightarrow> Some (snd (last ws)))"
  by (induction vs rule: rev_induct) (auto split: list.splits)

text \<open>
  The anchor dict that \<^verbatim>\<open>scan_for_anchors\<close> builds from an empty one holds, for every
  name, the node of the last record made under that name, and no entry for a name under which
  no record is made: each later \<^verbatim>\<open>anchors[name] = node\<close> overwrites the earlier one.
\<close>

lemma scan_map_of_occurrences:
  "map_of (scan_for_anchors doc []) name =
     (case occurrences name doc of [] \<Rightarrow> None | ns \<Rightarrow> Some (last ns))"
proof -
  have "map_of (scan_for_anchors doc []) name = map_of (rev (anchor_visits doc)) name"
    by (simp add: scan_map_of)
  also have "\<dots> = (case filter (\<lambda>(k, n). k = name) (anchor_visits doc) of
                      [] \<Rightarrow> None | ws \<Rightarrow> Some (snd (last ws)))"
    by (rule map_of_rev_last)
  also have "\<dots> = (case occurrences name doc of [] \<Rightarrow> None | ns \<Rightarrow> Some (last ns))"
    by (cases "filter (\<lambda>(k, n). k = name) (anchor_visits doc)")
       (simp_all add: occurrences_def last_map)
  finally show ?thesis .
qed

subsection \<open>The records of the scan among the nodes of the document\<close>

lemma unread_nodes_unmarked: "(t, x) \<in> set (unread_nodes n) \<Longrightarrow> \<not> t"
proof (induction n arbitrary: t x)
  case (Scalar a c v)
  then show ?case by simp
next
  case (Sequence a c xs)
  then show ?case by auto
next
  case (Mapping a c d)
  from Mapping.prems obtain key val where
    "(key, val) \<in> set d"
    "(t, x) \<in> set ((False, key) # unread_nodes key @ (False, val) # unread_nodes val)"
    by auto
  then show ?case
    using Mapping.IH(1) [of "(key, val)" key t x] Mapping.IH(2) [of "(key, val)" val t x]
    by auto
qed

lemma filter_unread_nodes: "filter (\<lambda>(t, x). t \<and> P x) (unread_nodes n) = []"
  using unread_nodes_unmarked by (auto simp: filter_empty_conv)

lemma marked_nodes_container:
  "isinstance_dict n \<or> isinstance_list n \<Longrightarrow> marked_nodes n = (False, n) # inner_nodes n"
  by (simp add: marked_nodes_def)

lemma inner_nodes_scalar:
  "\<not> isinstance_dict n \<Longrightarrow> \<not> isinstance_list n \<Longrightarrow> inner_nodes n = []"
  by (cases n) simp_all

lemma occurrences_marked:
  "map snd (filter (\<lambda>(k, n). k = Some name) (anchor_visits doc))
     = map snd (filter (\<lambda>(t, x). t \<and> anchor_is x (Some name)) (marked_nodes doc))"
proof (induction doc)
  case (Scalar a c v)
  show ?case by (cases a) (simp_all add: marked_nodes_def anchor_is_def)
next
  case (Sequence a c xs)
  have "map snd (filter (\<lambda>(k, n). k = Some name) (concat (map anchor_visits xs)))
        = map snd (filter (\<lambda>(t, x). t \<and> anchor_is x (Some name))
            (concat (map (\<lambda>ele. (\<not> isinstance_dict ele \<and> \<not> isinstance_list ele, ele)
                                 # inner_nodes ele) xs)))"
    using Sequence
  proof (induction xs)
    case Nil
    then show ?case by simp
  next
    case (Cons e xs)
    have "map snd (filter (\<lambda>(k, n). k = Some name) (anchor_visits e))
        = map snd (filter (\<lambda>(t, x). t \<and> anchor_is x (Some name)) (marked_nodes e))"
      using Cons.prems by simp
    then show ?case using Cons by (simp add: marked_nodes_def)
  qed
  then show ?case by (simp add: marked_nodes_def)
next
  case (Mapping a c d)
  then have IH: "\<And>key val. (key, val) \<in> set d \<Longrightarrow>
      map snd (filter (\<lambda>(k, n). k = Some name) (anchor_visits val))
        = map snd (filter (\<lambda>(t, x). t \<and> anchor_is x (Some name)) (marked_nodes val))"
    by fastforce
  have "map snd (filter (\<lambda>(k, n). k = Some name) (anchor_visits (Mapping a c d)))
        = map snd (filter (\<lambda>(t, x). t \<and> anchor_is x (Some name)) (inner_nodes (Mapping a c d)))"
    using IH
  proof (induction d)
    case Nil
    then show ?case by simp
  next
    case (Cons e d)
    obtain key val where e: "e = (key, val)" by (cases e)
    have hd: "map snd (filter (\<lambda>(k, n). k = Some name) (anchor_visits val))
        = map snd (filter (\<lambda>(t, x). t \<and> anchor_is x (Some name)) (marked_nodes val))"
      using Cons.prems [of key val] e by simp
    have tl: "map snd (filter (\<lambda>(k, n). k = Some name) (anchor_visits (Mapping a c d)))
        = map snd (filter (\<lambda>(t, x). t \<and> anchor_is x (Some name)) (inner_nodes (Mapping a c d)))"
    proof (rule Cons.IH)
      fix k v
      assume "(k, v) \<in> set d"
      then have "(k, v) \<in> set (e # d)" by simp
      then show "map snd (filter (\<lambda>(k, n). k = Some name) (anchor_visits v))
        = map snd (filter (\<lambda>(t, x). t \<and> anchor_is x (Some name)) (marked_nodes v))"
        by (rule Cons.prems)
    qed
    have inner: "map snd (filter (\<lambda>(k, n). k = Some name)
                   (if isinstance_dict val \<or> isinstance_list val then anchor_visits val else []))
        = map snd (filter (\<lambda>(t, x). t \<and> anchor_is x (Some name)) (inner_nodes val))"
    proof (cases "isinstance_dict val \<or> isinstance_list val")
      case True
      then show ?thesis using hd by (simp add: marked_nodes_container)
    next
      case False
      then show ?thesis by (simp add: inner_nodes_scalar)
    qed
    have key: "map snd (filter (\<lambda>(k, n). k = Some name)
                 (case anchor_of key of Anchor (Some n) \<Rightarrow> [(Some n, key)] | _ \<Rightarrow> []))
               = (if anchor_is key (Some name) then [key] else [])"
      by (simp add: anchor_is_def split: anchor_attr.splits option.splits)
    have val: "map snd (filter (\<lambda>(k, n). k = Some name)
                 (case anchor_of val of Anchor (Some n) \<Rightarrow> [(Some n, val)] | _ \<Rightarrow> []))
               = (if anchor_is val (Some name) then [val] else [])"
      by (simp add: anchor_is_def split: anchor_attr.splits option.splits)
    show ?case
      using tl inner key val by (simp add: e filter_unread_nodes)
  qed
  then show ?case by (simp add: marked_nodes_def)
qed

lemma occurrences_carriers:
  assumes "read_where_carried name doc"
  shows "occurrences (Some name) doc = carriers name doc"
proof -
  have "filter (\<lambda>(t, x). t \<and> anchor_is x (Some name)) (marked_nodes doc)
          = filter (\<lambda>p. anchor_is (snd p) (Some name)) (marked_nodes doc)"
    using assms by (intro filter_cong) (auto simp: read_where_carried_def list_all_iff)
  then show ?thesis
    by (simp add: occurrences_def carriers_def subnodes_def occurrences_marked filter_map
          comp_def)
qed


text \<open>
  C3, as the code has it. Let every node of the document that carries the name stand where
  \<^verbatim>\<open>scan_for_anchors\<close> reads anchors: as a key or as a value of a mapping, or as a scalar
  that is an element of a sequence or the document itself, and not inside a key. Then the
  anchor dict built from an empty one holds under the name the last node of the document, in
  document order, that carries the name, and it has no entry for a name that no node
  carries.
\<close>

theorem scan_records_last_carrier:
  assumes "read_where_carried name doc"
  shows "map_of (scan_for_anchors doc []) (Some name) =
           (case carriers name doc of [] \<Rightarrow> None | ns \<Rightarrow> Some (last ns))"
  using occurrences_carriers [OF assms] by (simp add: scan_map_of_occurrences)

theorem scan_records_last_carrier_witness:
  "read_where_carried ''x''
     (Mapping NoAttr None
        [(plain (SStr ''a''), anchored ''x'' (SInt 1)),
         (plain (SStr ''b''), anchored ''x'' (SInt 2))])
   \<and> carriers ''x''
        (Mapping NoAttr None
           [(plain (SStr ''a''), anchored ''x'' (SInt 1)),
            (plain (SStr ''b''), anchored ''x'' (SInt 2))])
       = [anchored ''x'' (SInt 1), anchored ''x'' (SInt 2)]
   \<and> map_of (scan_for_anchors
               (Mapping NoAttr None
                  [(plain (SStr ''a''), anchored ''x'' (SInt 1)),
                   (plain (SStr ''b''), anchored ''x'' (SInt 2))]) [])
            (Some ''x'')
       = Some (anchored ''x'' (SInt 2))"
proof -
  let ?doc = "Mapping NoAttr None
        [(plain (SStr ''a''), anchored ''x'' (SInt 1)),
         (plain (SStr ''b''), anchored ''x'' (SInt 2))]"
  have read: "read_where_carried ''x'' ?doc"
    by (simp add: read_where_carried_def marked_nodes_def plain_def anchored_def anchor_is_def)
  have carried: "carriers ''x'' ?doc = [anchored ''x'' (SInt 1), anchored ''x'' (SInt 2)]"
    by (simp add: carriers_def subnodes_def marked_nodes_def plain_def anchored_def
          anchor_is_def)
  from scan_records_last_carrier [OF read] carried
  have "map_of (scan_for_anchors ?doc []) (Some ''x'') = Some (anchored ''x'' (SInt 2))"
    by simp
  then show ?thesis using read carried by simp
qed


text \<open>
  C3 as the spec states it fails: in \<open>{a: &x 1, b: &x 2}\<close> the name \<open>x\<close> is carried by two
  nodes, the first occurrence is the node of \<open>1\<close>, and the scan records the node of \<open>2\<close>.
\<close>

theorem scan_first_occurrence_counterexample:
  "occurrences (Some ''x'')
     (Mapping NoAttr None
        [(plain (SStr ''a''), anchored ''x'' (SInt 1)),
         (plain (SStr ''b''), anchored ''x'' (SInt 2))])
   = [anchored ''x'' (SInt 1), anchored ''x'' (SInt 2)]
   \<and> map_of (scan_for_anchors
               (Mapping NoAttr None
                  [(plain (SStr ''a''), anchored ''x'' (SInt 1)),
                   (plain (SStr ''b''), anchored ''x'' (SInt 2))]) [])
            (Some ''x'')
       \<noteq> Some (anchored ''x'' (SInt 1))"
  by (simp add: occurrences_def plain_def anchored_def)

text \<open>
  A dict or a list that carries the name as an element of a list is no record of the scan:
  in \<open>{a: &x 1, l: [&x {k: 1}]}\<close> two nodes carry \<open>x\<close> and the anchor dict holds the
  first of them.
\<close>

lemma scan_skips_anchored_list_element:
  "carriers ''x''
     (Mapping NoAttr None
        [(plain (SStr ''a''), anchored ''x'' (SInt 1)),
         (plain (SStr ''l''),
          Sequence NoAttr None
            [Mapping (Anchor (Some ''x'')) None [(plain (SStr ''k''), plain (SInt 1))]])])
   = [anchored ''x'' (SInt 1),
      Mapping (Anchor (Some ''x'')) None [(plain (SStr ''k''), plain (SInt 1))]]
   \<and> \<not> read_where_carried ''x''
        (Mapping NoAttr None
           [(plain (SStr ''a''), anchored ''x'' (SInt 1)),
            (plain (SStr ''l''),
             Sequence NoAttr None
               [Mapping (Anchor (Some ''x'')) None [(plain (SStr ''k''), plain (SInt 1))]])])
   \<and> map_of (scan_for_anchors
               (Mapping NoAttr None
                  [(plain (SStr ''a''), anchored ''x'' (SInt 1)),
                   (plain (SStr ''l''),
                    Sequence NoAttr None
                      [Mapping (Anchor (Some ''x'')) None
                         [(plain (SStr ''k''), plain (SInt 1))]])]) [])
            (Some ''x'')
       = Some (anchored ''x'' (SInt 1))"
  by (simp add: carriers_def subnodes_def read_where_carried_def marked_nodes_def plain_def
        anchored_def anchor_is_def)

text \<open>A name in the anchor dict is carried by a node of the document.\<close>

lemma scan_keys_carried:
  assumes "Some name \<in> set (map fst (scan_for_anchors doc []))"
  shows "carriers name doc \<noteq> []"
proof -
  from keys_map_of [OF assms] obtain v where
    "map_of (scan_for_anchors doc []) (Some name) = Some v" by blast
  then have "occurrences (Some name) doc \<noteq> []"
    by (auto simp: scan_map_of_occurrences)
  then have "filter (\<lambda>(t, x). t \<and> anchor_is x (Some name)) (marked_nodes doc) \<noteq> []"
    by (simp add: occurrences_def occurrences_marked)
  then obtain t x where "(t, x) \<in> set (marked_nodes doc)" "anchor_is x (Some name)"
    by (auto simp: filter_empty_conv)
  then have "x \<in> set (carriers name doc)"
    by (force simp: carriers_def subnodes_def)
  then show ?thesis by auto
qed

text \<open>When every node that carries the name stands where the anchor is read, the anchor
  dict holds the last of them.\<close>

lemma recorded_is_last_carrier:
  assumes "read_where_carried name doc" and "carriers name doc \<noteq> []"
  shows "map_of (scan_for_anchors doc []) (Some name) = Some (last (carriers name doc))"
  using assms occurrences_carriers [OF assms(1)]
  by (cases "carriers name doc") (simp_all add: scan_map_of_occurrences)


subsection \<open>Removing the comments keeps the nodes and their anchors\<close>

lemma kind_delete_all_comments:
  "isinstance_dict (delete_all_comments n) = isinstance_dict n"
  "isinstance_list (delete_all_comments n) = isinstance_list n"
  by (cases n; simp)+

lemma anchor_of_delete_all_comments: "anchor_of (delete_all_comments n) = anchor_of n"
  by (cases n) simp_all

lemma unread_nodes_delete_all_comments:
  "unread_nodes (delete_all_comments doc)
     = map (\<lambda>(t, n). (t, delete_all_comments n)) (unread_nodes doc)"
proof (induction doc)
  case (Scalar a c v)
  show ?case by simp
next
  case (Sequence a c xs)
  then show ?case by (induction xs) simp_all
next
  case (Mapping a c d)
  then have IH: "\<And>key val. (key, val) \<in> set d \<Longrightarrow>
      unread_nodes (delete_all_comments key)
        = map (\<lambda>(t, n). (t, delete_all_comments n)) (unread_nodes key)
      \<and> unread_nodes (delete_all_comments val)
        = map (\<lambda>(t, n). (t, delete_all_comments n)) (unread_nodes val)"
    by fastforce
  then show ?case
  proof (induction d)
    case Nil
    then show ?case by simp
  next
    case (Cons e d)
    obtain key val where e: "e = (key, val)" by (cases e)
    have hd: "unread_nodes (delete_all_comments key)
        = map (\<lambda>(t, n). (t, delete_all_comments n)) (unread_nodes key)"
      "unread_nodes (delete_all_comments val)
        = map (\<lambda>(t, n). (t, delete_all_comments n)) (unread_nodes val)"
      using Cons.prems [of key val] e by simp_all
    have tl: "unread_nodes (delete_all_comments (Mapping a c d))
        = map (\<lambda>(t, n). (t, delete_all_comments n)) (unread_nodes (Mapping a c d))"
    proof (rule Cons.IH)
      fix k v
      assume "(k, v) \<in> set d"
      then have "(k, v) \<in> set (e # d)" by simp
      then show "unread_nodes (delete_all_comments k)
        = map (\<lambda>(t, n). (t, delete_all_comments n)) (unread_nodes k)
      \<and> unread_nodes (delete_all_comments v)
        = map (\<lambda>(t, n). (t, delete_all_comments n)) (unread_nodes v)"
        by (rule Cons.prems)
    qed
    show ?case using hd tl by (simp add: e)
  qed
qed

lemma inner_nodes_delete_all_comments:
  "inner_nodes (delete_all_comments doc)
     = map (\<lambda>(t, n). (t, delete_all_comments n)) (inner_nodes doc)"
proof (induction doc)
  case (Scalar a c v)
  show ?case by simp
next
  case (Sequence a c xs)
  then show ?case by (induction xs) (simp_all add: kind_delete_all_comments)
next
  case (Mapping a c d)
  then have IH: "\<And>key val. (key, val) \<in> set d \<Longrightarrow>
      inner_nodes (delete_all_comments val)
        = map (\<lambda>(t, n). (t, delete_all_comments n)) (inner_nodes val)"
    by fastforce
  then show ?case
  proof (induction d)
    case Nil
    then show ?case by simp
  next
    case (Cons e d)
    obtain key val where e: "e = (key, val)" by (cases e)
    have hd: "inner_nodes (delete_all_comments val)
        = map (\<lambda>(t, n). (t, delete_all_comments n)) (inner_nodes val)"
      using Cons.prems [of key val] e by simp
    have tl: "inner_nodes (delete_all_comments (Mapping a c d))
        = map (\<lambda>(t, n). (t, delete_all_comments n)) (inner_nodes (Mapping a c d))"
    proof (rule Cons.IH)
      fix k v
      assume "(k, v) \<in> set d"
      then have "(k, v) \<in> set (e # d)" by simp
      then show "inner_nodes (delete_all_comments v)
        = map (\<lambda>(t, n). (t, delete_all_comments n)) (inner_nodes v)"
        by (rule Cons.prems)
    qed
    show ?case using hd tl by (simp add: e unread_nodes_delete_all_comments)
  qed
qed

lemma marked_nodes_delete_all_comments:
  "marked_nodes (delete_all_comments doc)
     = map (\<lambda>(t, n). (t, delete_all_comments n)) (marked_nodes doc)"
  by (simp add: marked_nodes_def inner_nodes_delete_all_comments kind_delete_all_comments)

lemma carriers_delete_all_comments:
  "carriers name (delete_all_comments doc) = map delete_all_comments (carriers name doc)"
  by (simp add: carriers_def subnodes_def marked_nodes_delete_all_comments filter_map comp_def
        anchor_is_def anchor_of_delete_all_comments split_def)

lemma read_where_carried_delete_all_comments:
  "read_where_carried name (delete_all_comments doc) = read_where_carried name doc"
  by (simp add: read_where_carried_def marked_nodes_delete_all_comments list_all_iff
        anchor_is_def anchor_of_delete_all_comments split_def)

section \<open>Where buffered keys are flushed\<close>

text \<open>
  C1 at two inputs. The loop of \<^verbatim>\<open>_merge_dicts\<close> inserts every buffered entry at the index
  \<open>buffer_pos\<close>, which counts the entries of the incoming dict read so far, not the place
  of the key in the target; and it inserts them all at that one index, so each lands before
  the one inserted just before it.

  Target \<open>{c: 1, a: 2, b: 3}\<close> with incoming \<open>{a: 7, n: 8, c: 9}\<close>: the new key \<open>n\<close> is
  flushed when \<open>c\<close> is reached, at index 2, and ends after \<open>c\<close>: the key order is c, a, n, b.
  Target \<open>{a: 1, b: 2, c: 3}\<close> with incoming \<open>{m: 7, n: 8, c: 9}\<close>: \<open>m\<close> and \<open>n\<close> are
  flushed in front of \<open>c\<close>, in the order n, m.
\<close>

theorem flush_position_examples:
  "merge_dicts cfg
     (Mapping la lc [(plain (SStr ''c''), plain (SInt 1)), (plain (SStr ''a''), plain (SInt 2)),
                     (plain (SStr ''b''), plain (SInt 3))])
     (Mapping ra rc [(plain (SStr ''a''), plain (SInt 7)), (plain (SStr ''n''), plain (SInt 8)),
                     (plain (SStr ''c''), plain (SInt 9))])
     None None []
   = Inr (Mapping la lc [(plain (SStr ''c''), plain (SInt 9)), (plain (SStr ''a''), plain (SInt 7)),
                         (plain (SStr ''n''), plain (SInt 8)), (plain (SStr ''b''), plain (SInt 3))],
          Mapping la lc [(plain (SStr ''c''), plain (SInt 9)), (plain (SStr ''a''), plain (SInt 7)),
                         (plain (SStr ''n''), plain (SInt 8)), (plain (SStr ''b''), plain (SInt 3))])
   \<and>
   merge_dicts cfg
     (Mapping la lc [(plain (SStr ''a''), plain (SInt 1)), (plain (SStr ''b''), plain (SInt 2)),
                     (plain (SStr ''c''), plain (SInt 3))])
     (Mapping ra rc [(plain (SStr ''m''), plain (SInt 7)), (plain (SStr ''n''), plain (SInt 8)),
                     (plain (SStr ''c''), plain (SInt 9))])
     None None []
   = Inr (Mapping la lc [(plain (SStr ''a''), plain (SInt 1)), (plain (SStr ''b''), plain (SInt 2)),
                         (plain (SStr ''n''), plain (SInt 8)), (plain (SStr ''m''), plain (SInt 7)),
                         (plain (SStr ''c''), plain (SInt 9))],
          Mapping la lc [(plain (SStr ''a''), plain (SInt 1)), (plain (SStr ''b''), plain (SInt 2)),
                         (plain (SStr ''n''), plain (SInt 8)), (plain (SStr ''m''), plain (SInt 7)),
                         (plain (SStr ''c''), plain (SInt 9))])"
  by (simp add: plain_def dict_contains_def dict_insert_def)

section \<open>Arrays of hashes\<close>

text \<open>
  The example of the spec, with the hash mode \<open>HM_DEEP\<close>: target \<open>[{id: 1, v: x}]\<close> with
  incoming \<open>[{id: 1, v: y}, {id: 2, v: z}]\<close> gives \<open>[{id: 1, v: y}, {id: 2, v: z}]\<close>.
\<close>

lemma aoh_deep_example:
  "merge_lists (uniform_config HM_DEEP AM_ALL AOH_DEEP ACR_STOP)
     (Sequence la lc
        [Mapping NoAttr None [(plain (SStr ''id''), plain (SInt 1)),
                              (plain (SStr ''v''), plain (SStr ''x''))]])
     (Sequence ra rc
        [Mapping NoAttr None [(plain (SStr ''id''), plain (SInt 1)),
                              (plain (SStr ''v''), plain (SStr ''y''))],
         Mapping NoAttr None [(plain (SStr ''id''), plain (SInt 2)),
                              (plain (SStr ''v''), plain (SStr ''z''))]])
     parent parentref p
   = Inr (Sequence la lc
        [Mapping NoAttr None [(plain (SStr ''id''), plain (SInt 1)),
                              (plain (SStr ''v''), plain (SStr ''y''))],
         Mapping NoAttr None [(plain (SStr ''id''), plain (SInt 2)),
                              (plain (SStr ''v''), plain (SStr ''z''))]])"
  by (simp add: uniform_config_def plain_def dict_contains_def append_list_element_def Let_def)

text \<open>
  C7 where the hash mode of the matched record is \<open>HM_RIGHT\<close>. The rule for two dicts
  returns the incoming record, as the second component of \<open>merge_dicts\<close> shows, and
  \<^verbatim>\<open>_merge_dicts\<close> itself assigns that result to \<^verbatim>\<open>lhs[key]\<close> for a dict under a key.
  \<^verbatim>\<open>_merge_arrays_of_hashes\<close> assigns it to its loop variable \<open>lhs_hash\<close>: the list
  keeps the target's record.
\<close>

theorem aoh_deep_hash_right_example:
  "merge_lists (uniform_config HM_RIGHT AM_ALL AOH_DEEP ACR_STOP)
     (Sequence NoAttr None
        [Mapping NoAttr None [(plain (SStr ''id''), plain (SInt 1)),
                              (plain (SStr ''v''), plain (SStr ''x''))]])
     (Sequence NoAttr None
        [Mapping NoAttr None [(plain (SStr ''id''), plain (SInt 1)),
                              (plain (SStr ''v''), plain (SStr ''y''))]])
     None None []
   = Inr (Sequence NoAttr None
        [Mapping NoAttr None [(plain (SStr ''id''), plain (SInt 1)),
                              (plain (SStr ''v''), plain (SStr ''x''))]])
   \<and>
   merge_dicts (uniform_config HM_RIGHT AM_ALL AOH_DEEP ACR_STOP)
     (Mapping NoAttr None [(plain (SStr ''id''), plain (SInt 1)),
                           (plain (SStr ''v''), plain (SStr ''x''))])
     (Mapping NoAttr None [(plain (SStr ''id''), plain (SInt 1)),
                           (plain (SStr ''v''), plain (SStr ''y''))])
     (Some (Sequence NoAttr None
        [Mapping NoAttr None [(plain (SStr ''id''), plain (SInt 1)),
                              (plain (SStr ''v''), plain (SStr ''y''))]]))
     (Some (IndexRef 0)) [IndexRef 0]
   = Inr (Mapping NoAttr None [(plain (SStr ''id''), plain (SInt 1)),
                               (plain (SStr ''v''), plain (SStr ''x''))],
          Mapping NoAttr None [(plain (SStr ''id''), plain (SInt 1)),
                               (plain (SStr ''v''), plain (SStr ''y''))])
   \<and>
   merge_dicts (uniform_config HM_RIGHT AM_ALL AOH_DEEP ACR_STOP)
     (Mapping NoAttr None
        [(plain (SStr ''k''),
          Mapping NoAttr None [(plain (SStr ''id''), plain (SInt 1)),
                               (plain (SStr ''v''), plain (SStr ''x''))])])
     (Mapping NoAttr None
        [(plain (SStr ''k''),
          Mapping NoAttr None [(plain (SStr ''id''), plain (SInt 1)),
                               (plain (SStr ''v''), plain (SStr ''y''))])])
     None None []
   = Inr (Mapping NoAttr None
            [(plain (SStr ''k''),
              Mapping NoAttr None [(plain (SStr ''id''), plain (SInt 1)),
                                   (plain (SStr ''v''), plain (SStr ''y''))])],
          Mapping NoAttr None
            [(plain (SStr ''k''),
              Mapping NoAttr None [(plain (SStr ''id''), plain (SInt 1)),
                                   (plain (SStr ''v''), plain (SStr ''y''))])])"
  by (simp add: uniform_config_def plain_def dict_contains_def append_list_element_def Let_def)

section \<open>The search for an anchor\<close>

text \<open>
  C5 at the target \<open>{a: 1, b: &x 2}\<close>. The scan finds the anchor \<open>x\<close> on the value of
  \<open>b\<close>. \<^verbatim>\<open>search_for_anchor\<close> looks at the first entry only, descends into the scalar
  \<open>1\<close> and returns \<^verbatim>\<open>None\<close>, so \<^verbatim>\<open>_overwrite_aliased_values\<close> asks the path resolver
  for the path \<^verbatim>\<open>None\<close>, whatever the resolver is.
\<close>

theorem search_for_anchor_first_entry_only:
  "map_of (scan_for_anchors
             (Mapping NoAttr None [(plain (SStr ''a''), plain (SInt 1)),
                                   (plain (SStr ''b''), anchored ''x'' (SInt 2))]) [])
          (Some ''x'')
   = Some (anchored ''x'' (SInt 2))
   \<and>
   search_for_anchor
     (Mapping NoAttr None [(plain (SStr ''a''), plain (SInt 1)),
                           (plain (SStr ''b''), anchored ''x'' (SInt 2))])
     (Some ''x'') []
   = None
   \<and>
   overwrite_aliased_values get_nodes
     (Mapping NoAttr None [(plain (SStr ''a''), plain (SInt 1)),
                           (plain (SStr ''b''), anchored ''x'' (SInt 2))])
     (Mapping NoAttr None [(plain (SStr ''c''), anchored ''x'' (SInt 3))])
     (Some ''x'')
   = (case get_nodes
             (Mapping NoAttr None [(plain (SStr ''a''), plain (SInt 1)),
                                   (plain (SStr ''b''), anchored ''x'' (SInt 2))])
             None of
        Inl e \<Rightarrow> Inl e
      | Inr nodes \<Rightarrow>
          Inr (Mapping NoAttr None
                 [(plain (SStr ''c''),
                   (case nodes of [] \<Rightarrow> py_none | source_node # others \<Rightarrow> source_node))]))"
  by (simp add: plain_def anchored_def anchor_is_def overwrite_aliased_values_def
           split: sum.splits)

section \<open>Lists of scalars, unique elements\<close>

lemma unique_fold_snoc:
  "fold (\<lambda>ele l. if \<not> list_ex (\<lambda>x. py_eq x ele) l then l @ [ele] else l) (ys @ [e]) xs
   = (let zs = fold (\<lambda>ele l. if \<not> list_ex (\<lambda>x. py_eq x ele) l then l @ [ele] else l) ys xs
      in zs @ (if list_ex (\<lambda>x. py_eq x e) zs then [] else [e]))"
  by (simp add: Let_def)

lemma unique_fold_kept:
  "\<exists>kept. fold (\<lambda>ele l. if \<not> list_ex (\<lambda>x. py_eq x ele) l then l @ [ele] else l) ys xs
            = xs @ kept
          \<and> subseq kept ys
          \<and> list_all (\<lambda>k. \<not> list_ex (\<lambda>x. py_eq x k) xs) kept"
proof (induction ys rule: rev_induct)
  case Nil
  then show ?case by simp
next
  case (snoc e ys)
  then obtain kept where
    kept: "fold (\<lambda>ele l. if \<not> list_ex (\<lambda>x. py_eq x ele) l then l @ [ele] else l) ys xs
             = xs @ kept"
    and sub: "subseq kept ys"
    and fresh: "list_all (\<lambda>k. \<not> list_ex (\<lambda>x. py_eq x k) xs) kept"
    by blast
  show ?case
  proof (cases "list_ex (\<lambda>x. py_eq x e) (xs @ kept)")
    case True
    have "subseq kept (ys @ [e])"
      using sub by (rule subseq_rev_drop_many)
    then show ?thesis
      using kept fresh True by (intro exI [of _ kept]) simp
  next
    case False
    have "subseq (kept @ [e]) (ys @ [e])"
      using sub by simp
    moreover have "\<not> list_ex (\<lambda>x. py_eq x e) xs"
      using False by (simp add: list_ex_iff)
    ultimately show ?thesis
      using kept fresh False by (intro exI [of _ "kept @ [e]"]) simp
  qed
qed

text \<open>
  C9, as the code has it. With the array mode \<open>AM_UNIQUE\<close> the merge of a target list
  \<open>xs\<close> with incoming \<open>ys\<close> is \<open>xs\<close> followed by a list \<open>kept\<close> of incoming elements,
  taken from \<open>ys\<close> in incoming order as they are (so with their own anchors), none of them
  value-equal to an element of \<open>xs\<close>. Whether one more incoming element \<open>e\<close> is appended is
  decided against the target as it stands then, \<open>xs @ kept\<close>: \<open>e\<close> is dropped when an element
  of \<open>xs\<close> or an incoming element appended before it is value-equal to it, and appended
  otherwise.
\<close>

theorem unique_merge_appends_unseen:
  assumes "array_merge_mode cfg node_coord = AM_UNIQUE"
    and "array_merge_mode cfg node_coord' = AM_UNIQUE"
  shows
    "\<exists>kept.
       merge_simple_lists cfg (Sequence la lc xs) (Sequence ra rc ys) node_coord p
         = Inr (Sequence la lc (xs @ kept))
       \<and> subseq kept ys
       \<and> list_all (\<lambda>k. \<not> list_ex (\<lambda>x. py_eq x k) xs) kept
       \<and> merge_simple_lists cfg (Sequence la lc xs) (Sequence ra rc (ys @ [e])) node_coord' p
           = Inr (Sequence la lc
                    (xs @ kept @ (if list_ex (\<lambda>x. py_eq x e) (xs @ kept) then [] else [e])))"
proof -
  obtain kept where
    kept: "fold (\<lambda>ele l. if \<not> list_ex (\<lambda>x. py_eq x ele) l then l @ [ele] else l) ys xs
             = xs @ kept"
    and sub: "subseq kept ys"
    and fresh: "list_all (\<lambda>k. \<not> list_ex (\<lambda>x. py_eq x k) xs) kept"
    using unique_fold_kept by blast
  have one: "merge_simple_lists cfg (Sequence la lc xs) (Sequence ra rc ys) node_coord p
               = Inr (Sequence la lc (xs @ kept))"
    unfolding merge_simple_lists_def append_list_element_def
    using assms(1) kept by simp
  have two: "merge_simple_lists cfg (Sequence la lc xs) (Sequence ra rc (ys @ [e])) node_coord' p
               = Inr (Sequence la lc
                        (xs @ kept @ (if list_ex (\<lambda>x. py_eq x e) (xs @ kept) then [] else [e])))"
    unfolding merge_simple_lists_def append_list_element_def
    using assms(2) kept by simp
  show ?thesis
    using one two sub fresh by (intro exI [of _ kept]) simp
qed

theorem unique_merge_appends_unseen_witness:
  "array_merge_mode (uniform_config HM_DEEP AM_UNIQUE AOH_DEEP ACR_STOP) (plain SNull, None, None)
     = AM_UNIQUE
   \<and> (\<exists>kept.
       merge_simple_lists (uniform_config HM_DEEP AM_UNIQUE AOH_DEEP ACR_STOP)
           (Sequence NoAttr None [plain (SInt 1)])
           (Sequence NoAttr None [plain (SInt 1), anchored ''n'' (SInt 2)])
           (plain SNull, None, None) []
         = Inr (Sequence NoAttr None ([plain (SInt 1)] @ kept))
       \<and> subseq kept [plain (SInt 1), anchored ''n'' (SInt 2)]
       \<and> list_all (\<lambda>k. \<not> list_ex (\<lambda>x. py_eq x k) [plain (SInt 1)]) kept
       \<and> merge_simple_lists (uniform_config HM_DEEP AM_UNIQUE AOH_DEEP ACR_STOP)
           (Sequence NoAttr None [plain (SInt 1)])
           (Sequence NoAttr None ([plain (SInt 1), anchored ''n'' (SInt 2)] @ [plain (SInt 2)]))
           (plain SNull, None, None) []
         = Inr (Sequence NoAttr None
                  ([plain (SInt 1)] @ kept @
                   (if list_ex (\<lambda>x. py_eq x (plain (SInt 2))) ([plain (SInt 1)] @ kept)
                    then [] else [plain (SInt 2)]))))"
proof -
  have mode: "array_merge_mode (uniform_config HM_DEEP AM_UNIQUE AOH_DEEP ACR_STOP)
                (plain SNull, None, None) = AM_UNIQUE"
    by (simp add: uniform_config_def)
  from unique_merge_appends_unseen
         [OF mode mode, of NoAttr None "[plain (SInt 1)]" NoAttr None
            "[plain (SInt 1), anchored ''n'' (SInt 2)]" "[]" "plain (SInt 2)"]
  show ?thesis
    using mode by simp
qed

text \<open>
  C9 as the spec states it fails when the incoming list repeats a value. Target \<open>[1]\<close>
  with incoming \<open>[2, 2]\<close>: neither incoming element is value-equal to an element of the
  target \<open>[1]\<close>, and the result is \<open>[1, 2]\<close>, not \<open>[1, 2, 2]\<close>.
\<close>

theorem unique_merge_counterexample:
  "\<not> list_ex (\<lambda>x. py_eq x (plain (SInt 2))) [plain (SInt 1)]
   \<and> merge_simple_lists (uniform_config HM_DEEP AM_UNIQUE AOH_DEEP ACR_STOP)
         (Sequence NoAttr None [plain (SInt 1)])
         (Sequence NoAttr None [plain (SInt 2), plain (SInt 2)])
         (Sequence NoAttr None [plain (SInt 2), plain (SInt 2)], None, None) []
       = Inr (Sequence NoAttr None [plain (SInt 1), plain (SInt 2)])
   \<and> merge_simple_lists (uniform_config HM_DEEP AM_UNIQUE AOH_DEEP ACR_STOP)
         (Sequence NoAttr None [plain (SInt 1)])
         (Sequence NoAttr None [plain (SInt 2), plain (SInt 2)])
         (Sequence NoAttr None [plain (SInt 2), plain (SInt 2)], None, None) []
       \<noteq> Inr (Sequence NoAttr None [plain (SInt 1), plain (SInt 2), plain (SInt 2)])"
  by (simp add: merge_simple_lists_def uniform_config_def plain_def append_list_element_def)

section \<open>Anchor conflicts: the loop\<close>

lemma resolve_loop_fails:
  assumes "a \<in> set as"
    and "\<And>docs. \<exists>e d. resolve_anchor cfg py_hash get_nodes L R docs a = Inl (e, d)"
  shows "\<exists>e d. resolve_loop cfg py_hash get_nodes L R as docs = Inl (e, d)"
  using assms(1)
proof (induction as arbitrary: docs)
  case Nil
  then show ?case by simp
next
  case (Cons b as)
  show ?case
  proof (cases "resolve_anchor cfg py_hash get_nodes L R docs b")
    case (Inl failure)
    obtain e d where "failure = (e, d)" by (cases failure)
    then show ?thesis using Inl by simp
  next
    case (Inr docs')
    show ?thesis
    proof (cases "a = b")
      case True
      then show ?thesis using assms(2) [of docs] Inr by auto
    next
      case False
      then have "a \<in> set as" using Cons.prems by simp
      then show ?thesis using Cons.IH [of docs'] Inr by simp
    qed
  qed
qed

lemma resolve_anchor_container:
  assumes "map_of L a = Some prime" and "map_of R a = Some reader"
    and "isinstance_dict prime \<or> isinstance_list prime"
  shows "resolve_anchor cfg py_hash get_nodes L R docs a =
           Inl (Fatal 142
                  (if isinstance_dict prime
                   then ''Dictionary-based anchor conflict resolution is not yet implemented.''
                   else ''List-based anchor conflict resolution is not yet implemented.''),
                docs)"
  using assms by (cases docs) (auto simp: resolve_anchor_def)

lemma merge_with_resolve_failure:
  "resolve_anchor_conflicts cfg py_hash get_nodes data (delete_all_comments rhs) = Inl (e, docs)
     \<Longrightarrow> merge_with cfg py_hash get_nodes data rhs = Inl e"
  by (simp add: merge_with_def)

text \<open>
  An anchor on a dict or a list that the scan has recorded. Let the name \<open>a\<close> be in the
  anchor dict of the target, with a dict or a list as its node \<open>prime\<close>, and in the anchor
  dict of the incoming document (scanned after its comments are removed, as \<^verbatim>\<open>merge_with\<close>
  does). Then the turn of the loop for \<open>a\<close> fails with exit code 142 whatever the incoming
  node, the conflict mode and the documents are, and leaves the documents as they were:
  nothing is compared and no resolution is applied. And \<^verbatim>\<open>merge_with\<close> fails: it fails with
  the failure of \<^verbatim>\<open>_resolve_anchor_conflicts\<close>, so before \<^verbatim>\<open>_merge_dicts\<close> or
  \<^verbatim>\<open>_merge_lists\<close> is called. This is the case of an anchored dict or list that is a
  value of a dict, which is where \<^verbatim>\<open>scan_for_anchors\<close> records one.
\<close>

lemma recorded_container_anchor_is_fatal:
  assumes "map_of (scan_for_anchors data []) a = Some prime"
    and "map_of (scan_for_anchors (delete_all_comments rhs) []) a = Some reader"
    and "isinstance_dict prime \<or> isinstance_list prime"
  shows
    "resolve_anchor cfg' py_hash' get_nodes' (scan_for_anchors data [])
         (scan_for_anchors (delete_all_comments rhs) []) docs a
       = Inl (Fatal 142
                (if isinstance_dict prime
                 then ''Dictionary-based anchor conflict resolution is not yet implemented.''
                 else ''List-based anchor conflict resolution is not yet implemented.''),
              docs)
     \<and> (\<exists>e docs'.
          resolve_anchor_conflicts cfg py_hash get_nodes data (delete_all_comments rhs)
            = Inl (e, docs')
          \<and> merge_with cfg py_hash get_nodes data rhs = Inl e)"
proof -
  let ?L = "scan_for_anchors data []"
  let ?R = "scan_for_anchors (delete_all_comments rhs) []"
  have step: "resolve_anchor c h g ?L ?R d a =
           Inl (Fatal 142
                  (if isinstance_dict prime
                   then ''Dictionary-based anchor conflict resolution is not yet implemented.''
                   else ''List-based anchor conflict resolution is not yet implemented.''),
                d)" for c h g d
    using assms by (rule resolve_anchor_container)
  have "a \<in> set (shared_anchors ?L ?R)"
    using assms(1,2) by (simp only: shared_anchors_iff map_of_keys)
  then have "\<exists>e d. resolve_loop cfg py_hash get_nodes ?L ?R (shared_anchors ?L ?R)
                          (data, delete_all_comments rhs) = Inl (e, d)"
    using step by (intro resolve_loop_fails [of a]) auto
  then obtain e docs' where
    "resolve_anchor_conflicts cfg py_hash get_nodes data (delete_all_comments rhs)
       = Inl (e, docs')"
    by (auto simp: resolve_anchor_conflicts_def Let_def)
  then show ?thesis
    using step merge_with_resolve_failure by blast
qed

text \<open>The target \<open>{m: &b {k: 1}}\<close> and the incoming \<open>{m: &b {k: 2}}\<close>.\<close>

lemma recorded_container_anchor_example:
  "map_of (scan_for_anchors container_target []) (Some ''b'')
     = Some (Mapping (Anchor (Some ''b'')) None [(plain (SStr ''k''), plain (SInt 1))])
   \<and> map_of (scan_for_anchors (delete_all_comments container_incoming) []) (Some ''b'')
     = Some (Mapping (Anchor (Some ''b'')) None [(plain (SStr ''k''), plain (SInt 2))])
   \<and> isinstance_dict (Mapping (Anchor (Some ''b'')) None [(plain (SStr ''k''), plain (SInt 1))])
   \<and> resolve_anchor (uniform_config HM_DEEP AM_ALL AOH_DEEP ACR_RENAME) example_hash
         example_resolver (scan_for_anchors container_target [])
         (scan_for_anchors (delete_all_comments container_incoming) [])
         (container_target, container_incoming) (Some ''b'')
       = Inl (Fatal 142
                ''Dictionary-based anchor conflict resolution is not yet implemented.'',
              (container_target, container_incoming))
   \<and> (\<exists>e docs'.
        resolve_anchor_conflicts (uniform_config HM_DEEP AM_ALL AOH_DEEP ACR_RENAME)
            example_hash example_resolver container_target
            (delete_all_comments container_incoming)
          = Inl (e, docs')
        \<and> merge_with (uniform_config HM_DEEP AM_ALL AOH_DEEP ACR_RENAME) example_hash
            example_resolver container_target container_incoming = Inl e)"
proof -
  have prime: "map_of (scan_for_anchors container_target []) (Some ''b'')
     = Some (Mapping (Anchor (Some ''b'')) None [(plain (SStr ''k''), plain (SInt 1))])"
    by (simp add: container_target_def plain_def)
  have reader: "map_of (scan_for_anchors (delete_all_comments container_incoming) [])
                  (Some ''b'')
     = Some (Mapping (Anchor (Some ''b'')) None [(plain (SStr ''k''), plain (SInt 2))])"
    by (simp add: container_incoming_def plain_def)
  have kind: "isinstance_dict
                (Mapping (Anchor (Some ''b'')) None [(plain (SStr ''k''), plain (SInt 1))])
              \<or> isinstance_list
                (Mapping (Anchor (Some ''b'')) None [(plain (SStr ''k''), plain (SInt 1))])"
    by simp
  from recorded_container_anchor_is_fatal
         [OF prime reader kind,
          of "uniform_config HM_DEEP AM_ALL AOH_DEEP ACR_RENAME" example_hash example_resolver
             "(container_target, container_incoming)"
             "uniform_config HM_DEEP AM_ALL AOH_DEEP ACR_RENAME" example_hash example_resolver]
  show ?thesis
    using prime reader by simp
qed

text \<open>
  C2 does not hold of the code when the anchored mapping is an element of a sequence. In the
  target \<open>{hosts: [&web {name: a}]}\<close> and the incoming \<open>{hosts: [&web {name: b}]}\<close> the name
  \<open>web\<close> is carried by a mapping in both documents. \<^verbatim>\<open>scan_for_anchors\<close> reads the anchor
  of a dict or a list only where it is a value of a dict, so it records nothing for either
  document; \<^verbatim>\<open>_resolve_anchor_conflicts\<close> finds no shared anchor and returns with both
  documents as they were, whatever the conflict mode is; and \<^verbatim>\<open>merge_with\<close> merges the two
  documents. With the array-of-hashes mode ALL (the default) the result is
  \<open>{hosts: [&web {name: a}, &web {name: b}]}\<close>, where two different mappings carry the name.
\<close>

theorem unscanned_container_anchor_is_merged:
  "carriers ''web'' hosts_target
     = [Mapping (Anchor (Some ''web'')) None [(plain (SStr ''name''), plain (SStr ''a''))]]
   \<and> carriers ''web'' (delete_all_comments hosts_incoming)
     = [Mapping (Anchor (Some ''web'')) None [(plain (SStr ''name''), plain (SStr ''b''))]]
   \<and> scan_for_anchors hosts_target [] = []
   \<and> scan_for_anchors (delete_all_comments hosts_incoming) [] = []
   \<and> resolve_anchor_conflicts cfg py_hash get_nodes hosts_target
         (delete_all_comments hosts_incoming)
       = Inr (hosts_target, delete_all_comments hosts_incoming)
   \<and> merge_with (uniform_config HM_DEEP AM_ALL AOH_OTHER acr) example_hash example_resolver
         hosts_target hosts_incoming
       = Inr (Mapping (Anchor None) None
                [(plain (SStr ''hosts''),
                  Sequence (Anchor None) None
                    [Mapping (Anchor (Some ''web'')) None
                       [(plain (SStr ''name''), plain (SStr ''a''))],
                     Mapping (Anchor (Some ''web'')) None
                       [(plain (SStr ''name''), plain (SStr ''b''))]])])"
proof -
  have carried: "carriers ''web'' hosts_target
     = [Mapping (Anchor (Some ''web'')) None [(plain (SStr ''name''), plain (SStr ''a''))]]"
    "carriers ''web'' (delete_all_comments hosts_incoming)
     = [Mapping (Anchor (Some ''web'')) None [(plain (SStr ''name''), plain (SStr ''b''))]]"
    by (simp_all add: carriers_def subnodes_def marked_nodes_def hosts_target_def
          hosts_incoming_def plain_def anchor_is_def)
  have scans: "scan_for_anchors hosts_target [] = []"
    "scan_for_anchors (delete_all_comments hosts_incoming) [] = []"
    by (simp_all add: hosts_target_def hosts_incoming_def plain_def)
  have resolve: "resolve_anchor_conflicts cfg py_hash get_nodes hosts_target
         (delete_all_comments hosts_incoming)
       = Inr (hosts_target, delete_all_comments hosts_incoming)" for cfg py_hash get_nodes
    using scans by (simp add: resolve_anchor_conflicts_def shared_anchors_def)
  have merge: "merge_with (uniform_config HM_DEEP AM_ALL AOH_OTHER acr) example_hash
         example_resolver hosts_target hosts_incoming
       = Inr (Mapping (Anchor None) None
                [(plain (SStr ''hosts''),
                  Sequence (Anchor None) None
                    [Mapping (Anchor (Some ''web'')) None
                       [(plain (SStr ''name''), plain (SStr ''a''))],
                     Mapping (Anchor (Some ''web'')) None
                       [(plain (SStr ''name''), plain (SStr ''b''))]])])"
    unfolding merge_with_def resolve
    by (simp add: hosts_target_def hosts_incoming_def plain_def uniform_config_def
          dict_contains_def append_list_element_def Let_def)
  show ?thesis
    using carried scans resolve merge by simp
qed

section \<open>Anchor conflicts: stopping the merge\<close>

lemma resolve_anchor_failure_docs:
  "resolve_anchor cfg py_hash get_nodes L R docs a = Inl (e, d) \<Longrightarrow> d = docs"
  by (cases docs)
     (auto simp: resolve_anchor_def
           split: option.splits if_splits anchor_conflict_resolutions.splits sum.splits)

lemma stop_step_cases:
  assumes "anchor_merge_mode cfg = ACR_STOP"
    and "map_of L a = Some prime" and "map_of R a = Some reader"
  shows "resolve_anchor cfg py_hash get_nodes L R docs a =
           (if isinstance_dict prime then
              Inl (Fatal 142
                    ''Dictionary-based anchor conflict resolution is not yet implemented.'',
                   docs)
            else if isinstance_list prime then
              Inl (Fatal 142
                    ''List-based anchor conflict resolution is not yet implemented.'',
                   docs)
            else if \<not> py_eq prime reader then
              Inl (Fatal 4 (''Aborting due to anchor conflict, '' @ py_format a), docs)
            else Inr docs)"
  using assms by (cases docs) (simp add: resolve_anchor_def)

lemma resolve_loop_skip:
  assumes "\<And>b. b \<in> set pre \<Longrightarrow> resolve_anchor cfg py_hash get_nodes L R docs b = Inr docs"
  shows "resolve_loop cfg py_hash get_nodes L R (pre @ rest) docs
         = resolve_loop cfg py_hash get_nodes L R rest docs"
  using assms by (induction pre) simp_all

text \<open>The failure of the loop when the mode is \<open>ACR_STOP\<close> is the failure of the first
  anchor of the list that does not pass.\<close>

lemma stop_loop_first_failure:
  assumes "anchor_merge_mode cfg = ACR_STOP"
    and "set as \<subseteq> set (shared_anchors L R)"
    and "resolve_loop cfg py_hash get_nodes L R as docs = Inl (e, d)"
  shows "d = docs \<and>
         (\<exists>before b after p r.
            as = before @ b # after
            \<and> list_all (\<lambda>c. \<exists>p r. map_of L c = Some p \<and> map_of R c = Some r
                               \<and> \<not> isinstance_dict p \<and> \<not> isinstance_list p \<and> py_eq p r)
                before
            \<and> map_of L b = Some p \<and> map_of R b = Some r
            \<and> (isinstance_dict p \<or> isinstance_list p \<or> \<not> py_eq p r)
            \<and> e = (if isinstance_dict p then
                      Fatal 142
                        ''Dictionary-based anchor conflict resolution is not yet implemented.''
                    else if isinstance_list p then
                      Fatal 142 ''List-based anchor conflict resolution is not yet implemented.''
                    else Fatal 4 (''Aborting due to anchor conflict, '' @ py_format b)))"
  using assms(2,3)
proof (induction as)
  case Nil
  then show ?case by simp
next
  case (Cons c as)
  from Cons.prems(1) have "c \<in> set (map fst L)" and "c \<in> set (map fst R)"
    by (simp_all add: shared_anchors_iff)
  then obtain p r where pr: "map_of L c = Some p" "map_of R c = Some r"
    using keys_map_of [of c L] keys_map_of [of c R] by auto
  note step = stop_step_cases [OF assms(1) pr, of py_hash get_nodes docs]
  show ?case
  proof (cases "isinstance_dict p \<or> isinstance_list p \<or> \<not> py_eq p r")
    case True
    then have e: "e = (if isinstance_dict p then
                      Fatal 142
                        ''Dictionary-based anchor conflict resolution is not yet implemented.''
                    else if isinstance_list p then
                      Fatal 142 ''List-based anchor conflict resolution is not yet implemented.''
                    else Fatal 4 (''Aborting due to anchor conflict, '' @ py_format c))"
      and d: "d = docs"
      using step Cons.prems(2) by (auto split: if_splits)
    have "c # as = [] @ c # as" by simp
    then show ?thesis
      using pr True e d by (intro conjI exI [of _ "[]"] exI [of _ c] exI [of _ as]
                                   exI [of _ p] exI [of _ r]) simp_all
  next
    case False
    then have "resolve_loop cfg py_hash get_nodes L R as docs = Inl (e, d)"
      using step Cons.prems(2) by simp
    with Cons.IH Cons.prems(1) obtain before b after p' r' where
      d: "d = docs"
      and split: "as = before @ b # after"
      and pass: "list_all (\<lambda>c. \<exists>p r. map_of L c = Some p \<and> map_of R c = Some r
                               \<and> \<not> isinstance_dict p \<and> \<not> isinstance_list p \<and> py_eq p r)
                before"
      and b: "map_of L b = Some p'" "map_of R b = Some r'"
        "isinstance_dict p' \<or> isinstance_list p' \<or> \<not> py_eq p' r'"
      and e: "e = (if isinstance_dict p' then
                      Fatal 142
                        ''Dictionary-based anchor conflict resolution is not yet implemented.''
                    else if isinstance_list p' then
                      Fatal 142 ''List-based anchor conflict resolution is not yet implemented.''
                    else Fatal 4 (''Aborting due to anchor conflict, '' @ py_format b))"
      by auto
    have split': "c # as = (c # before) @ b # after" using split by simp
    have pass': "list_all (\<lambda>c. \<exists>p r. map_of L c = Some p \<and> map_of R c = Some r
                               \<and> \<not> isinstance_dict p \<and> \<not> isinstance_list p \<and> py_eq p r)
                (c # before)"
      using pass pr False by simp
    show ?thesis
      using d split' pass' b e
      by (intro conjI exI [of _ "c # before"] exI [of _ b] exI [of _ after]
                exI [of _ p'] exI [of _ r']) simp_all
  qed
qed


text \<open>
  Let the conflict mode be none of RENAME, LEFT, RIGHT, and let the anchor \<open>a\<close> be in both
  anchor dicts, with a scalar \<open>prime\<close> in the target and a scalar \<open>reader\<close> in the incoming
  document that are not value-equal. Then \<^verbatim>\<open>_resolve_anchor_conflicts\<close> fails with the
  failure of the first shared anchor that does not pass.
\<close>

lemma stop_on_recorded_conflict:
  assumes "anchor_merge_mode cfg = ACR_STOP"
    and "map_of (scan_for_anchors data []) a = Some prime"
    and "map_of (scan_for_anchors (delete_all_comments rhs) []) a = Some reader"
    and "\<not> isinstance_dict prime" and "\<not> isinstance_list prime"
    and "\<not> isinstance_dict reader" and "\<not> isinstance_list reader"
    and "\<not> py_eq prime reader"
  shows
    "\<exists>e. resolve_anchor_conflicts cfg py_hash get_nodes data (delete_all_comments rhs)
            = Inl (e, (data, delete_all_comments rhs))
        \<and> merge_with cfg py_hash get_nodes data rhs = Inl e
        \<and> (\<exists>before b after p r.
              shared_anchors (scan_for_anchors data [])
                  (scan_for_anchors (delete_all_comments rhs) [])
                = before @ b # after
              \<and> list_all (\<lambda>c. \<exists>p r. map_of (scan_for_anchors data []) c = Some p
                       \<and> map_of (scan_for_anchors (delete_all_comments rhs) []) c = Some r
                       \<and> \<not> isinstance_dict p \<and> \<not> isinstance_list p \<and> py_eq p r)
                  before
              \<and> map_of (scan_for_anchors data []) b = Some p
              \<and> map_of (scan_for_anchors (delete_all_comments rhs) []) b = Some r
              \<and> (isinstance_dict p \<or> isinstance_list p \<or> \<not> py_eq p r)
              \<and> e = (if isinstance_dict p then
                        Fatal 142
                          ''Dictionary-based anchor conflict resolution is not yet implemented.''
                      else if isinstance_list p then
                        Fatal 142
                          ''List-based anchor conflict resolution is not yet implemented.''
                      else Fatal 4 (''Aborting due to anchor conflict, '' @ py_format b)))
        \<and> (list_all (\<lambda>c. \<exists>p r. map_of (scan_for_anchors data []) c = Some p
                       \<and> map_of (scan_for_anchors (delete_all_comments rhs) []) c = Some r
                       \<and> \<not> isinstance_dict p \<and> \<not> isinstance_list p \<and> py_eq p r)
               (takeWhile (\<lambda>b. b \<noteq> a)
                  (shared_anchors (scan_for_anchors data [])
                     (scan_for_anchors (delete_all_comments rhs) [])))
             \<longrightarrow> e = Fatal 4 (''Aborting due to anchor conflict, '' @ py_format a))"
proof -
  let ?L = "scan_for_anchors data []"
  let ?R = "scan_for_anchors (delete_all_comments rhs) []"
  let ?S = "shared_anchors ?L ?R"
  let ?docs = "(data, delete_all_comments rhs)"
  let ?loop = "resolve_loop cfg py_hash get_nodes ?L ?R"
  let ?passes = "\<lambda>c. \<exists>p r. map_of ?L c = Some p \<and> map_of ?R c = Some r
                       \<and> \<not> isinstance_dict p \<and> \<not> isinstance_list p \<and> py_eq p r"
  have here: "resolve_anchor cfg py_hash get_nodes ?L ?R docs a
                = Inl (Fatal 4 (''Aborting due to anchor conflict, '' @ py_format a), docs)"
    for docs
    using stop_step_cases [OF assms(1,2,3)] assms(4,5,8) by simp
  have member: "a \<in> set ?S"
    using assms(2,3) by (simp only: shared_anchors_iff map_of_keys)
  then obtain e d where fails: "?loop ?S ?docs = Inl (e, d)"
    using resolve_loop_fails [of a ?S cfg py_hash get_nodes ?L ?R ?docs] here by blast
  note first_failure = stop_loop_first_failure [OF assms(1) subset_refl fails]
  then have d: "d = ?docs" by blast
  have resolve: "resolve_anchor_conflicts cfg py_hash get_nodes data (delete_all_comments rhs)
                   = Inl (e, ?docs)"
    using fails d by (simp add: resolve_anchor_conflicts_def Let_def)
  have first: "e = Fatal 4 (''Aborting due to anchor conflict, '' @ py_format a)"
    if benign: "list_all ?passes (takeWhile (\<lambda>b. b \<noteq> a) ?S)"
  proof -
    have split: "?S = takeWhile (\<lambda>b. b \<noteq> a) ?S @ a # tl (dropWhile (\<lambda>b. b \<noteq> a) ?S)"
      using member
      by (metis (mono_tags, lifting) dropWhile_eq_Nil_conv hd_dropWhile list.collapse
            takeWhile_dropWhile_id)
    have pass: "resolve_anchor cfg py_hash get_nodes ?L ?R ?docs b = Inr ?docs"
      if "b \<in> set (takeWhile (\<lambda>b. b \<noteq> a) ?S)" for b
    proof -
      from benign that obtain p r where
        "map_of ?L b = Some p" "map_of ?R b = Some r"
        "\<not> isinstance_dict p" "\<not> isinstance_list p" "py_eq p r"
        unfolding list_all_iff by blast
      then show ?thesis
        using stop_step_cases [OF assms(1), of ?L b p ?R r py_hash get_nodes ?docs] by simp
    qed
    have "?loop ?S ?docs = ?loop (a # tl (dropWhile (\<lambda>b. b \<noteq> a) ?S)) ?docs"
      using resolve_loop_skip [of "takeWhile (\<lambda>b. b \<noteq> a) ?S" cfg py_hash get_nodes ?L ?R
                                 ?docs "a # tl (dropWhile (\<lambda>b. b \<noteq> a) ?S)"]
            pass split
      by simp
    also have "\<dots> = Inl (Fatal 4 (''Aborting due to anchor conflict, '' @ py_format a), ?docs)"
      using here by simp
    finally show ?thesis using fails by simp
  qed
  show ?thesis
    using resolve merge_with_resolve_failure [OF resolve] first_failure first by blast
qed


text \<open>
  C6, as the code has it. Let the conflict mode be none of RENAME, LEFT, RIGHT, and let the
  name be carried in the target and in the incoming document, in each of them only by nodes
  that stand where \<^verbatim>\<open>scan_for_anchors\<close> reads anchors (as a key or as a value of a mapping,
  or as a scalar that is an element of a sequence or the document itself, and not inside a
  key), the last of which is a scalar; and let the two scalars not be value-equal. Then
  \<^verbatim>\<open>_resolve_anchor_conflicts\<close> fails, with the target and the incoming document (its
  comments removed) as they were given, and \<^verbatim>\<open>merge_with\<close> fails with that failure. The
  failure is that of the first shared anchor \<open>b\<close>, in the order of the incoming document's
  anchor dict, that does not pass, every shared anchor before it having a scalar in the
  target that is value-equal to its incoming node: when the node of \<open>b\<close> in the target is a
  dict or a list it is the failure with exit code 142 and the message of C2 for a dict or
  for a list, which names no anchor, and otherwise it has exit code 4 and the message
  \<open>Aborting due to anchor conflict, \<close> with the name \<open>b\<close>. It names the name itself when
  every shared anchor before it passes.
\<close>

theorem stop_on_conflict:
  assumes "anchor_merge_mode cfg = ACR_STOP"
    and "read_where_carried name data" and "carriers name data \<noteq> []"
    and "last (carriers name data) = Scalar pa pc pv"
    and "read_where_carried name rhs" and "carriers name rhs \<noteq> []"
    and "last (carriers name rhs) = Scalar ra rc rv"
    and "\<not> scalar_eq pv rv"
  shows
    "\<exists>e. resolve_anchor_conflicts cfg py_hash get_nodes data (delete_all_comments rhs)
            = Inl (e, (data, delete_all_comments rhs))
        \<and> merge_with cfg py_hash get_nodes data rhs = Inl e
        \<and> (\<exists>before b after p r.
              shared_anchors (scan_for_anchors data [])
                  (scan_for_anchors (delete_all_comments rhs) [])
                = before @ b # after
              \<and> list_all (\<lambda>c. \<exists>p r. map_of (scan_for_anchors data []) c = Some p
                       \<and> map_of (scan_for_anchors (delete_all_comments rhs) []) c = Some r
                       \<and> \<not> isinstance_dict p \<and> \<not> isinstance_list p \<and> py_eq p r)
                  before
              \<and> map_of (scan_for_anchors data []) b = Some p
              \<and> map_of (scan_for_anchors (delete_all_comments rhs) []) b = Some r
              \<and> (isinstance_dict p \<or> isinstance_list p \<or> \<not> py_eq p r)
              \<and> e = (if isinstance_dict p then
                        Fatal 142
                          ''Dictionary-based anchor conflict resolution is not yet implemented.''
                      else if isinstance_list p then
                        Fatal 142
                          ''List-based anchor conflict resolution is not yet implemented.''
                      else Fatal 4 (''Aborting due to anchor conflict, '' @ py_format b)))
        \<and> (list_all (\<lambda>c. \<exists>p r. map_of (scan_for_anchors data []) c = Some p
                       \<and> map_of (scan_for_anchors (delete_all_comments rhs) []) c = Some r
                       \<and> \<not> isinstance_dict p \<and> \<not> isinstance_list p \<and> py_eq p r)
               (takeWhile (\<lambda>b. b \<noteq> Some name)
                  (shared_anchors (scan_for_anchors data [])
                     (scan_for_anchors (delete_all_comments rhs) [])))
             \<longrightarrow> e = Fatal 4 (''Aborting due to anchor conflict, '' @ name))"
proof -
  have prime: "map_of (scan_for_anchors data []) (Some name) = Some (Scalar pa pc pv)"
    using recorded_is_last_carrier [OF assms(2,3)] assms(4) by simp
  have "carriers name (delete_all_comments rhs) \<noteq> []"
    "last (carriers name (delete_all_comments rhs)) = Scalar ra None rv"
    using assms(6,7) by (simp_all add: carriers_delete_all_comments last_map)
  then have reader: "map_of (scan_for_anchors (delete_all_comments rhs) []) (Some name)
                       = Some (Scalar ra None rv)"
    using recorded_is_last_carrier [of name "delete_all_comments rhs"] assms(5)
    by (simp add: read_where_carried_delete_all_comments)
  have differ: "\<not> py_eq (Scalar pa pc pv) (Scalar ra None rv)"
    using assms(8) by simp
  from stop_on_recorded_conflict [OF assms(1) prime reader _ _ _ _ differ,
         of py_hash get_nodes]
  show ?thesis by simp
qed

theorem stop_on_conflict_witness:
  "anchor_merge_mode (uniform_config HM_DEEP AM_ALL AOH_DEEP ACR_STOP) = ACR_STOP
   \<and> read_where_carried ''x'' conflict_target
   \<and> carriers ''x'' conflict_target = [Scalar (Anchor (Some ''x'')) None (SInt 1)]
   \<and> read_where_carried ''x'' conflict_incoming
   \<and> carriers ''x'' conflict_incoming = [Scalar (Anchor (Some ''x'')) None (SInt 2)]
   \<and> \<not> scalar_eq (SInt 1) (SInt 2)
   \<and> resolve_anchor_conflicts (uniform_config HM_DEEP AM_ALL AOH_DEEP ACR_STOP) example_hash
         example_resolver conflict_target (delete_all_comments conflict_incoming)
       = Inl (Fatal 4 ''Aborting due to anchor conflict, x'',
              (conflict_target, delete_all_comments conflict_incoming))
   \<and> merge_with (uniform_config HM_DEEP AM_ALL AOH_DEEP ACR_STOP) example_hash
         example_resolver conflict_target conflict_incoming
       = Inl (Fatal 4 ''Aborting due to anchor conflict, x'')"
proof -
  let ?cfg = "uniform_config HM_DEEP AM_ALL AOH_DEEP ACR_STOP"
  have mode: "anchor_merge_mode ?cfg = ACR_STOP"
    by (simp add: uniform_config_def)
  have read: "read_where_carried ''x'' conflict_target"
    "read_where_carried ''x'' conflict_incoming"
    by (simp_all add: read_where_carried_def marked_nodes_def conflict_target_def
          conflict_incoming_def plain_def anchored_def anchor_is_def)
  have prime: "carriers ''x'' conflict_target = [Scalar (Anchor (Some ''x'')) None (SInt 1)]"
    by (simp add: carriers_def subnodes_def marked_nodes_def conflict_target_def plain_def
          anchored_def anchor_is_def)
  have reader: "carriers ''x'' conflict_incoming = [Scalar (Anchor (Some ''x'')) None (SInt 2)]"
    by (simp add: carriers_def subnodes_def marked_nodes_def conflict_incoming_def plain_def
          anchored_def anchor_is_def)
  have differ: "\<not> scalar_eq (SInt 1) (SInt 2)"
    by simp
  have shared: "shared_anchors (scan_for_anchors conflict_target [])
                  (scan_for_anchors (delete_all_comments conflict_incoming) []) = [Some ''x'']"
    by (simp add: shared_anchors_def conflict_target_def conflict_incoming_def plain_def
          anchored_def)
  from stop_on_conflict
         [OF mode read(1) _ _ read(2) _ _ differ,
          of "Anchor (Some ''x'')" None "Anchor (Some ''x'')" None example_hash
             example_resolver]
  obtain e where
    "resolve_anchor_conflicts ?cfg example_hash example_resolver conflict_target
       (delete_all_comments conflict_incoming)
     = Inl (e, (conflict_target, delete_all_comments conflict_incoming))"
    "merge_with ?cfg example_hash example_resolver conflict_target conflict_incoming = Inl e"
    "e = Fatal 4 (''Aborting due to anchor conflict, '' @ ''x'')"
    using shared prime reader by auto
  then show ?thesis
    using mode read prime reader differ by simp
qed

text \<open>
  C6 as the spec states it fails when a shared anchor on a dict or a list comes first. In
  the target \<open>{m: &b {k: 1}, k: &x 1}\<close> and the incoming \<open>{m: &b {k: 1}, k: &x 2}\<close> the two
  scalars anchored as \<open>x\<close> differ; the merge fails with exit code 142 and the message of the
  dict case, which names no anchor.
\<close>

theorem stop_on_conflict_counterexample:
  "map_of (scan_for_anchors mixed_target []) (Some ''x'') = Some (anchored ''x'' (SInt 1))
   \<and> map_of (scan_for_anchors (delete_all_comments mixed_incoming) []) (Some ''x'')
       = Some (anchored ''x'' (SInt 2))
   \<and> \<not> py_eq (anchored ''x'' (SInt 1)) (anchored ''x'' (SInt 2))
   \<and> merge_with (uniform_config HM_DEEP AM_ALL AOH_DEEP ACR_STOP) example_hash
         example_resolver mixed_target mixed_incoming
       = Inl (Fatal 142
                ''Dictionary-based anchor conflict resolution is not yet implemented.'')"
  by (simp add: merge_with_def resolve_anchor_conflicts_def resolve_anchor_def
        shared_anchors_def mixed_target_def mixed_incoming_def plain_def anchored_def
        uniform_config_def)

section \<open>An incoming document that is a scalar\<close>

lemma not_container_is_scalar:
  "\<not> isinstance_dict n \<Longrightarrow> \<not> isinstance_list n \<Longrightarrow> \<exists>a c v. n = Scalar a c v"
  by (cases n) simp_all

lemma overwrite_scalar_target:
  "overwrite_aliased_values get_nodes source_dom (Scalar a c v) x = Inr n \<Longrightarrow> n = Scalar a c v"
  by (simp add: overwrite_aliased_values_def Let_def split: sum.splits)

lemma rename_anchor_scalar:
  "\<exists>a'. rename_anchor (Scalar a c v) x y = Scalar a' c v"
  by simp

lemma resolve_anchor_scalar_rhs:
  assumes "resolve_anchor cfg py_hash get_nodes L R (data, Scalar a c v) x = Inr (data', rhs')"
  shows "\<exists>a'. rhs' = Scalar a' c v"
proof -
  from assms obtain prime reader where
    pr: "map_of L x = Some prime" "map_of R x = Some reader"
    by (cases "map_of L x"; cases "map_of R x") (simp_all add: resolve_anchor_def)
  have kind: "\<not> isinstance_dict prime" "\<not> isinstance_list prime"
    using assms pr by (simp_all add: resolve_anchor_def split: if_splits)
  show ?thesis
  proof (cases "py_eq prime reader")
    case True
    then have "Scalar a c v = rhs'"
      using assms pr kind by (simp add: resolve_anchor_def)
    then show ?thesis by blast
  next
    case False
    show ?thesis
    proof (cases "anchor_merge_mode cfg")
      case ACR_RENAME
      then have "rename_anchor (Scalar a c v) x
                   (calc_unique_anchor py_hash x (map fst L @ map fst R)) = rhs'"
        using assms pr kind False by (simp add: resolve_anchor_def)
      then show ?thesis using rename_anchor_scalar by metis
    next
      case ACR_LEFT
      then obtain n where "overwrite_aliased_values get_nodes data (Scalar a c v) x = Inr n"
        and "n = rhs'"
        using assms pr kind False
        by (cases "overwrite_aliased_values get_nodes data (Scalar a c v) x")
           (simp_all add: resolve_anchor_def)
      then show ?thesis using overwrite_scalar_target by blast
    next
      case ACR_RIGHT
      then have "Scalar a c v = rhs'"
        using assms pr kind False
        by (cases "overwrite_aliased_values get_nodes (Scalar a c v) data x")
           (simp_all add: resolve_anchor_def)
      then show ?thesis by blast
    next
      case ACR_STOP
      then show ?thesis using assms pr kind False by (simp add: resolve_anchor_def)
    qed
  qed
qed

lemma resolve_loop_scalar_rhs:
  assumes "resolve_loop cfg py_hash get_nodes L R as (data, Scalar a c v) = Inr (data', rhs')"
  shows "\<exists>a'. rhs' = Scalar a' c v"
  using assms
proof (induction as arbitrary: data a)
  case Nil
  then have "Scalar a c v = rhs'" by simp
  then show ?case by blast
next
  case (Cons x as)
  from Cons.prems obtain data1 rhs1 where
    step: "resolve_anchor cfg py_hash get_nodes L R (data, Scalar a c v) x = Inr (data1, rhs1)"
    and rest: "resolve_loop cfg py_hash get_nodes L R as (data1, rhs1) = Inr (data', rhs')"
    by (cases "resolve_anchor cfg py_hash get_nodes L R (data, Scalar a c v) x") auto
  from resolve_anchor_scalar_rhs [OF step] obtain a1 where "rhs1 = Scalar a1 c v"
    by blast
  then show ?case using Cons.IH rest by blast
qed

text \<open>
  C10, as the code has it. For an incoming document that is neither a dict nor a list,
  \<^verbatim>\<open>merge_with\<close> removes the comments, resolves the anchor conflicts and calls neither
  \<^verbatim>\<open>_merge_dicts\<close> nor \<^verbatim>\<open>_merge_lists\<close>: it fails when \<^verbatim>\<open>_resolve_anchor_conflicts\<close>
  fails, with the same error, and otherwise the target is the one that
  \<^verbatim>\<open>_resolve_anchor_conflicts\<close> left. When the incoming scalar has no anchor attribute, or
  carries an anchor name that no node of the target carries, the call succeeds and the
  target is as it was.
\<close>

theorem scalar_root_is_not_merged:
  assumes "\<not> isinstance_dict rhs" and "\<not> isinstance_list rhs"
  shows
    "merge_with cfg py_hash get_nodes data rhs
       = (case resolve_anchor_conflicts cfg py_hash get_nodes data (delete_all_comments rhs) of
            Inl (e, docs) \<Rightarrow> Inl e
          | Inr (data1, rhs1) \<Rightarrow> Inr data1)
     \<and> (anchor_of rhs = NoAttr \<or> (\<exists>name. anchor_of rhs = Anchor (Some name)
                                          \<and> carriers name data = [])
          \<longrightarrow> merge_with cfg py_hash get_nodes data rhs = Inr data)"
proof -
  obtain a c v where rhs: "rhs = Scalar a c v"
    using assms not_container_is_scalar by blast
  let ?L = "scan_for_anchors data []"
  let ?R = "scan_for_anchors (Scalar a None v) []"
  have first: "merge_with cfg py_hash get_nodes data rhs
       = (case resolve_anchor_conflicts cfg py_hash get_nodes data (delete_all_comments rhs) of
            Inl (e, docs) \<Rightarrow> Inl e
          | Inr (data1, rhs1) \<Rightarrow> Inr data1)"
  proof (cases "resolve_anchor_conflicts cfg py_hash get_nodes data (delete_all_comments rhs)")
    case (Inl failure)
    then show ?thesis by (cases failure) (simp add: merge_with_def)
  next
    case (Inr docs)
    obtain data1 rhs1 where docs: "docs = (data1, rhs1)" by (cases docs)
    have "resolve_loop cfg py_hash get_nodes ?L ?R (shared_anchors ?L ?R)
            (data, Scalar a None v) = Inr (data1, rhs1)"
      using Inr docs rhs by (simp add: resolve_anchor_conflicts_def Let_def)
    then obtain a1 where "rhs1 = Scalar a1 None v"
      using resolve_loop_scalar_rhs by blast
    then show ?thesis using Inr docs by (simp add: merge_with_def)
  qed
  have second: "merge_with cfg py_hash get_nodes data rhs = Inr data"
    if unshared: "anchor_of rhs = NoAttr \<or> (\<exists>name. anchor_of rhs = Anchor (Some name)
                                          \<and> carriers name data = [])"
  proof -
    have "shared_anchors ?L ?R = []"
    proof (cases a)
      case NoAttr
      then show ?thesis by (simp add: shared_anchors_def)
    next
      case (Anchor x)
      then obtain name where x: "x = Some name" and none: "carriers name data = []"
        using unshared rhs by auto
      have "Some name \<notin> set (map fst ?L)"
        using scan_keys_carried [of name data] none by blast
      then show ?thesis using Anchor x by (simp add: shared_anchors_def)
    qed
    then have "resolve_anchor_conflicts cfg py_hash get_nodes data (delete_all_comments rhs)
                 = Inr (data, Scalar a None v)"
      using rhs by (simp add: resolve_anchor_conflicts_def Let_def)
    then show ?thesis by (simp add: merge_with_def)
  qed
  show ?thesis using first second by blast
qed

theorem scalar_root_is_not_merged_witness:
  "\<not> isinstance_dict (Scalar (Anchor (Some ''y'')) (Some ''a comment'') (SInt 2))
   \<and> \<not> isinstance_list (Scalar (Anchor (Some ''y'')) (Some ''a comment'') (SInt 2))
   \<and> carriers ''y'' conflict_target = []
   \<and> resolve_anchor_conflicts (uniform_config HM_DEEP AM_ALL AOH_DEEP ACR_STOP) example_hash
         example_resolver conflict_target
         (delete_all_comments (Scalar (Anchor (Some ''y'')) (Some ''a comment'') (SInt 2)))
       = Inr (conflict_target, Scalar (Anchor (Some ''y'')) None (SInt 2))
   \<and> merge_with (uniform_config HM_DEEP AM_ALL AOH_DEEP ACR_STOP) example_hash
         example_resolver conflict_target
         (Scalar (Anchor (Some ''y'')) (Some ''a comment'') (SInt 2))
       = Inr conflict_target"
proof -
  have absent: "carriers ''y'' conflict_target = []"
    by (simp add: carriers_def subnodes_def marked_nodes_def conflict_target_def plain_def
          anchored_def anchor_is_def)
  have resolve: "resolve_anchor_conflicts (uniform_config HM_DEEP AM_ALL AOH_DEEP ACR_STOP)
         example_hash example_resolver conflict_target
         (delete_all_comments (Scalar (Anchor (Some ''y'')) (Some ''a comment'') (SInt 2)))
       = Inr (conflict_target, Scalar (Anchor (Some ''y'')) None (SInt 2))"
    by (simp add: resolve_anchor_conflicts_def shared_anchors_def conflict_target_def
          plain_def anchored_def)
  have kind: "\<not> isinstance_dict (Scalar (Anchor (Some ''y'')) (Some ''a comment'') (SInt 2))"
    "\<not> isinstance_list (Scalar (Anchor (Some ''y'')) (Some ''a comment'') (SInt 2))"
    by simp_all
  have cond: "anchor_of (Scalar (Anchor (Some ''y'')) (Some ''a comment'') (SInt 2)) = NoAttr
              \<or> (\<exists>name. anchor_of (Scalar (Anchor (Some ''y'')) (Some ''a comment'') (SInt 2))
                           = Anchor (Some name)
                         \<and> carriers name conflict_target = [])"
    using absent by simp
  from scalar_root_is_not_merged
         [OF kind, of "uniform_config HM_DEEP AM_ALL AOH_DEEP ACR_STOP" example_hash
            example_resolver conflict_target, THEN conjunct2] cond
  have "merge_with (uniform_config HM_DEEP AM_ALL AOH_DEEP ACR_STOP) example_hash
         example_resolver conflict_target
         (Scalar (Anchor (Some ''y'')) (Some ''a comment'') (SInt 2))
       = Inr conflict_target"
    by blast
  then show ?thesis using absent resolve by simp
qed

text \<open>
  C10 as the spec states it fails when the incoming scalar carries an anchor that conflicts
  with the target's: the incoming document \<open>&x 2\<close> against the target \<open>{k: &x 1}\<close>, with the
  default conflict mode, makes \<^verbatim>\<open>merge_with\<close> fail.
\<close>

theorem scalar_root_counterexample:
  "\<not> isinstance_dict (anchored ''x'' (SInt 2))
   \<and> \<not> isinstance_list (anchored ''x'' (SInt 2))
   \<and> merge_with (uniform_config HM_DEEP AM_ALL AOH_DEEP ACR_STOP) example_hash
         example_resolver conflict_target (anchored ''x'' (SInt 2))
       = Inl (Fatal 4 ''Aborting due to anchor conflict, x'')"
  by (simp add: merge_with_def resolve_anchor_conflicts_def resolve_anchor_def
        shared_anchors_def conflict_target_def plain_def anchored_def uniform_config_def)

text \<open>
  A scalar without an anchor name that has the anchor attribute is recorded under the key
  \<^verbatim>\<open>None\<close> when it is an element of a list or the document itself. The incoming scalar
  \<open>17\<close> against the target \<open>[16]\<close>, both scalars with the attribute and no name, is a
  conflict of the anchor \<^verbatim>\<open>None\<close>.
\<close>

lemma nameless_scalar_root_example:
  "merge_with (uniform_config HM_DEEP AM_ALL AOH_DEEP ACR_STOP) example_hash example_resolver
     (Sequence NoAttr None [Scalar (Anchor None) None (SInt 16)])
     (Scalar (Anchor None) None (SInt 17))
   = Inl (Fatal 4 ''Aborting due to anchor conflict, None'')"
  by (simp add: merge_with_def resolve_anchor_conflicts_def resolve_anchor_def
        shared_anchors_def uniform_config_def)

section \<open>Renaming a conflicting anchor\<close>

subsection \<open>The fresh name\<close>




subsection \<open>The renaming\<close>





lemma rename_set_anchor_container:
  "isinstance_dict n \<or> isinstance_list n
     \<Longrightarrow> rename_anchor (set_anchor n x) anchor new_anchor
         = set_anchor (rename_anchor n anchor new_anchor) x"
  by (cases n) simp_all


subsection \<open>The anchors of the nodes after a renaming\<close>


lemma inner_nodes_set_anchor: "inner_nodes (set_anchor n x) = inner_nodes n"
  by (cases n) simp_all









subsection \<open>The loop over the shared anchors\<close>











text \<open>The example run through: with a hash of \<open>-7\<close> the anchor \<open>x\<close> of the incoming
  \<open>{k: &x 2}\<close> becomes \<open>x__7\<close>, and the merge gives \<open>{k: &x__7 2}\<close>.\<close>

lemma rename_example:
  "resolve_anchor_conflicts (uniform_config HM_DEEP AM_ALL AOH_DEEP ACR_RENAME) example_hash
       example_resolver conflict_target (delete_all_comments conflict_incoming)
     = Inr (conflict_target,
            Mapping NoAttr None [(plain (SStr ''k''), anchored ''x__7'' (SInt 2))])
   \<and> merge_with (uniform_config HM_DEEP AM_ALL AOH_DEEP ACR_RENAME) example_hash
       example_resolver conflict_target conflict_incoming
     = Inr (Mapping NoAttr None [(plain (SStr ''k''), anchored ''x__7'' (SInt 2))])"
proof -
  have name: "calc_unique_anchor example_hash (Some ''x'') [Some ''x'', Some ''x'']
                = Some ''x__7''"
    by code_simp
  have resolve: "resolve_anchor_conflicts (uniform_config HM_DEEP AM_ALL AOH_DEEP ACR_RENAME)
       example_hash example_resolver conflict_target (delete_all_comments conflict_incoming)
     = Inr (conflict_target,
            Mapping NoAttr None [(plain (SStr ''k''), anchored ''x__7'' (SInt 2))])"
    using name
    by (simp add: resolve_anchor_conflicts_def resolve_anchor_def shared_anchors_def
          conflict_target_def conflict_incoming_def plain_def anchored_def uniform_config_def
          anchor_is_def)
  then show ?thesis
    by (simp add: merge_with_def conflict_target_def plain_def anchored_def dict_contains_def)
qed

end
